theory Spec2Isabelle
  imports Complex_Main "HOL-Library.Sublist"
begin

section \<open>The Chrome history tool of \<^verbatim>\<open>src/mcp/chrome-hist-tool.ts\<close>\<close>

text \<open>
  The tool resolves the path of Chrome's history database, copies the database to a
  temporary file, opens the copy read-only, selects today's visits and formats them.
  Everything the handler reads from its surroundings (the platform, the directories, the
  clock, the outcome of system calls) is a field of the record \<open>env\<close>; the file system it
  changes is passed in and returned; an exception is the \<open>Inl\<close> of a sum.
  Console output is not modelled.
\<close>

subsection \<open>Strings\<close>

text \<open>
  A string is a list of bytes (the UTF-8 encoding of the JavaScript string).
  \<open>toLowerCase\<close> maps the ASCII capitals, and \<open>trim\<close> removes the UTF-8 encodings of
  the white space and line terminator code points of ECMAScript.
\<close>

type_synonym path = string

definition backslash :: string where
  "backslash = [CHR 0x5C]"

definition dquote :: string where
  "dquote = [CHR 0x22]"

definition newline :: string where
  "newline = [CHR 0x0A]"

definition lower_char :: "char \<Rightarrow> char" where
  "lower_char c =
     (case map_of (zip ''ABCDEFGHIJKLMNOPQRSTUVWXYZ'' ''abcdefghijklmnopqrstuvwxyz'') c of
        Some l \<Rightarrow> l
      | None \<Rightarrow> c)"

definition toLowerCase :: "string \<Rightarrow> string" where
  "toLowerCase s = map lower_char s"

definition str_includes :: "string \<Rightarrow> string \<Rightarrow> bool" where
  \<comment> \<open>\<open>s.includes(t)\<close>\<close>
  "str_includes s t = sublist t s"

definition white_space :: "string list" where
  \<comment> \<open>U+0009 to U+000D, U+0020, U+00A0, U+1680, U+2000 to U+200A, U+2028, U+2029,
      U+202F, U+205F, U+3000 and U+FEFF\<close>
  "white_space =
     [[CHR 0x09], [CHR 0x0A], [CHR 0x0B], [CHR 0x0C], [CHR 0x0D], [CHR 0x20],
      [CHR 0xC2, CHR 0xA0], [CHR 0xE1, CHR 0x9A, CHR 0x80], [CHR 0xE2, CHR 0x80, CHR 0x80],
      [CHR 0xE2, CHR 0x80, CHR 0x81], [CHR 0xE2, CHR 0x80, CHR 0x82],
      [CHR 0xE2, CHR 0x80, CHR 0x83], [CHR 0xE2, CHR 0x80, CHR 0x84],
      [CHR 0xE2, CHR 0x80, CHR 0x85], [CHR 0xE2, CHR 0x80, CHR 0x86],
      [CHR 0xE2, CHR 0x80, CHR 0x87], [CHR 0xE2, CHR 0x80, CHR 0x88],
      [CHR 0xE2, CHR 0x80, CHR 0x89], [CHR 0xE2, CHR 0x80, CHR 0x8A],
      [CHR 0xE2, CHR 0x80, CHR 0xA8], [CHR 0xE2, CHR 0x80, CHR 0xA9],
      [CHR 0xE2, CHR 0x80, CHR 0xAF], [CHR 0xE2, CHR 0x81, CHR 0x9F],
      [CHR 0xE3, CHR 0x80, CHR 0x80], [CHR 0xEF, CHR 0xBB, CHR 0xBF]]"

function strip_prefixes :: "string list \<Rightarrow> string \<Rightarrow> string" where
  "strip_prefixes ws s =
     (case find (\<lambda>w. w \<noteq> [] \<and> prefix w s) ws of
        None \<Rightarrow> s
      | Some w \<Rightarrow> strip_prefixes ws (drop (length w) s))"
  by pat_completeness auto
termination
proof (relation "measure (\<lambda>(ws, s). length s)")
  show "wf (measure (\<lambda>(ws, s). length s))" by simp
next
  fix ws :: "string list" and s w :: string
  assume "find (\<lambda>w. w \<noteq> [] \<and> prefix w s) ws = Some w"
  then have "w \<noteq> []" and "prefix w s"
    by (auto simp: find_Some_iff)
  then have "s \<noteq> []" by auto
  then show "((ws, drop (length w) s), (ws, s)) \<in> measure (\<lambda>(ws, s). length s)"
    using \<open>w \<noteq> []\<close> by simp
qed

definition trim :: "string \<Rightarrow> string" where
  "trim s = rev (strip_prefixes (map rev white_space) (rev (strip_prefixes white_space s)))"

fun join :: "string \<Rightarrow> string list \<Rightarrow> string" where
  "join sep [] = []"
| "join sep [x] = x"
| "join sep (x # y # ys) = x @ sep @ join sep (y # ys)"

definition digit_char :: "nat \<Rightarrow> char" where
  "digit_char d = ''0123456789'' ! d"

fun digits :: "nat \<Rightarrow> string" where
  \<comment> \<open>the decimal rendering of a non-negative integer inside a template literal\<close>
  "digits n = (if n < 10 then [digit_char n] else digits (n div 10) @ [digit_char (n mod 10)])"

subsection \<open>Numbers\<close>

text \<open>
  A JavaScript number is an IEEE 754 binary64 value. A finite one is modelled as the
  rational it denotes, and every arithmetic operation rounds its exact result to the
  nearest binary64 value, ties to even (\<open>fl\<close>). The exponent is clamped below at the
  subnormal range; overflow to infinity is not modelled, since no value of the tool
  comes near \<open>2 ^ 1024\<close>.
\<close>

type_synonym number = rat

fun bitlen :: "nat \<Rightarrow> nat" where
  "bitlen n = (if n = 0 then 0 else Suc (bitlen (n div 2)))"

definition ilog2 :: "rat \<Rightarrow> int" where
  \<comment> \<open>\<open>\<lfloor>log\<^sub>2 q\<rfloor>\<close> for \<open>q > 0\<close>, from the bit lengths of numerator and denominator\<close>
  "ilog2 q =
     (let a = fst (quotient_of q); b = snd (quotient_of q);
          d = int (bitlen (nat a)) - int (bitlen (nat b))
      in if power_int 2 d \<le> q then d else d - 1)"

definition round_half_even :: "rat \<Rightarrow> int" where
  "round_half_even x =
     (let f = \<lfloor>x\<rfloor>; r = x - of_int f
      in if r < 1 / 2 then f else if 1 / 2 < r then f + 1 else if even f then f else f + 1)"

definition fl :: "rat \<Rightarrow> number" where
  "fl q =
     (if q = 0 then 0
      else let e = max (ilog2 \<bar>q\<bar> - 52) (- 1074)
           in sgn q * of_int (round_half_even (\<bar>q\<bar> / power_int 2 e)) * power_int 2 e)"

definition js_add :: "number \<Rightarrow> number \<Rightarrow> number" where
  "js_add a b = fl (a + b)"

definition js_sub :: "number \<Rightarrow> number \<Rightarrow> number" where
  "js_sub a b = fl (a - b)"

definition js_mul :: "number \<Rightarrow> number \<Rightarrow> number" where
  "js_mul a b = fl (a * b)"

definition js_div :: "number \<Rightarrow> number \<Rightarrow> number" where
  \<comment> \<open>the divisor is the non-zero constant 1000 wherever the code divides\<close>
  "js_div a b = fl (a / b)"

definition to_number :: "int \<Rightarrow> number" where
  \<comment> \<open>a 64-bit INTEGER column handed to JavaScript as a number\<close>
  "to_number i = fl (of_int i)"

definition WEBKIT_EPOCH_OFFSET :: number where
  "WEBKIT_EPOCH_OFFSET = 11644473600000"

definition chromeTimeStart :: "number \<Rightarrow> number" where
  \<comment> \<open>line 112: \<open>(startOfToday.getTime() + WEBKIT_EPOCH_OFFSET) * 1000\<close>\<close>
  "chromeTimeStart unixMs = js_mul (js_add unixMs WEBKIT_EPOCH_OFFSET) 1000"

definition visitTimeMs :: "number \<Rightarrow> number" where
  \<comment> \<open>line 131: \<open>(row.last_visit_time / 1000) - WEBKIT_EPOCH_OFFSET\<close>\<close>
  "visitTimeMs raw = js_sub (js_div raw 1000) WEBKIT_EPOCH_OFFSET"

definition truncate_rat :: "rat \<Rightarrow> int" where
  "truncate_rat x = (if 0 \<le> x then \<lfloor>x\<rfloor> else \<lceil>x\<rceil>)"

definition newDate :: "number \<Rightarrow> int option" where
  \<comment> \<open>\<open>new Date(x)\<close>: the time value is \<open>x\<close> truncated toward zero, and the date is
      invalid (\<open>None\<close>) beyond 8.64e15 ms\<close>
  "newDate x = (if 8640000000000000 < \<bar>x\<bar> then None else Some (truncate_rat x))"

subsection \<open>Errors\<close>

text \<open>
  One constructor per place where the handler can throw. An \<open>Error\<close> that the code
  itself constructs carries its message text. \<open>SuppressedError d e\<close> is what a
  \<open>using\<close> declaration throws when the scope's body failed with \<open>e\<close> and the disposal
  then failed with \<open>d\<close>.
\<close>

datatype error =
    UnsupportedPlatform string
  | IdentityResolutionFailed string
  | SourceNotFound string
  | CopyFailed
  | OpenFailed
  | QueryFailed
  | UnlinkFailed
  | SuppressedError error error

definition unsupported_os_message :: string where
  \<comment> \<open>the message of line 47 (Japanese for "unsupported OS"), as UTF-8 bytes\<close>
  "unsupported_os_message =
     [CHR 0xE3, CHR 0x82, CHR 0xB5, CHR 0xE3, CHR 0x83, CHR 0x9D, CHR 0xE3, CHR 0x83,
      CHR 0xBC, CHR 0xE3, CHR 0x83, CHR 0x88, CHR 0xE3, CHR 0x81, CHR 0x95, CHR 0xE3,
      CHR 0x82, CHR 0x8C, CHR 0xE3, CHR 0x81, CHR 0xA6, CHR 0xE3, CHR 0x81, CHR 0x84,
      CHR 0xE3, CHR 0x81, CHR 0xAA, CHR 0xE3, CHR 0x81, CHR 0x84, CHR 0x4F, CHR 0x53,
      CHR 0xE3, CHR 0x81, CHR 0xA7, CHR 0xE3, CHR 0x81, CHR 0x99]"

definition username_failed_message :: string where
  \<comment> \<open>the message of line 32 ("could not get the Windows user name from WSL")\<close>
  "username_failed_message =
     [CHR 0x57, CHR 0x53, CHR 0x4C, CHR 0xE3, CHR 0x81, CHR 0x8B, CHR 0xE3, CHR 0x82,
      CHR 0x89, CHR 0x57, CHR 0x69, CHR 0x6E, CHR 0x64, CHR 0x6F, CHR 0x77, CHR 0x73,
      CHR 0xE3, CHR 0x81, CHR 0xAE, CHR 0xE3, CHR 0x83, CHR 0xA6, CHR 0xE3, CHR 0x83,
      CHR 0xBC, CHR 0xE3, CHR 0x82, CHR 0xB6, CHR 0xE3, CHR 0x83, CHR 0xBC, CHR 0xE5,
      CHR 0x90, CHR 0x8D, CHR 0xE3, CHR 0x82, CHR 0x92, CHR 0xE5, CHR 0x8F, CHR 0x96,
      CHR 0xE5, CHR 0xBE, CHR 0x97, CHR 0xE3, CHR 0x81, CHR 0xA7, CHR 0xE3, CHR 0x81,
      CHR 0x8D, CHR 0xE3, CHR 0x81, CHR 0xBE, CHR 0xE3, CHR 0x81, CHR 0x9B, CHR 0xE3,
      CHR 0x82, CHR 0x93, CHR 0xE3, CHR 0x81, CHR 0xA7, CHR 0xE3, CHR 0x81, CHR 0x97,
      CHR 0xE3, CHR 0x81, CHR 0x9F, CHR 0xE3, CHR 0x80, CHR 0x82]"

definition not_found_prefix :: string where
  \<comment> \<open>the fixed part of the message of line 95 ("Chrome history file not found: ")\<close>
  "not_found_prefix =
     [CHR 0x43, CHR 0x68, CHR 0x72, CHR 0x6F, CHR 0x6D, CHR 0x65, CHR 0xE3, CHR 0x81,
      CHR 0xAE, CHR 0xE5, CHR 0xB1, CHR 0xA5, CHR 0xE6, CHR 0xAD, CHR 0xB4, CHR 0xE3,
      CHR 0x83, CHR 0x95, CHR 0xE3, CHR 0x82, CHR 0xA1, CHR 0xE3, CHR 0x82, CHR 0xA4,
      CHR 0xE3, CHR 0x83, CHR 0xAB, CHR 0xE3, CHR 0x81, CHR 0x8C, CHR 0xE8, CHR 0xA6,
      CHR 0x8B, CHR 0xE3, CHR 0x81, CHR 0xA4, CHR 0xE3, CHR 0x81, CHR 0x8B, CHR 0xE3,
      CHR 0x82, CHR 0x8A, CHR 0xE3, CHR 0x81, CHR 0xBE, CHR 0xE3, CHR 0x81, CHR 0x9B,
      CHR 0xE3, CHR 0x82, CHR 0x93, CHR 0x3A, CHR 0x20]"

subsection \<open>The history database and the file system\<close>

text \<open>
  A row of the \<open>urls\<close> table, with the three columns that the query selects. In the
  database \<open>last_visit_time\<close> is a 64-bit integer; in the rows that the database driver
  hands to JavaScript it is a number.
\<close>

record 'a row =
  title :: "string option"
  url :: string
  last_visit_time :: 'a

type_synonym db_row = "int row"

type_synonym js_row = "number row"

definition to_js_row :: "db_row \<Rightarrow> js_row" where
  "to_js_row r =
     \<lparr> title = title r, url = url r, last_visit_time = to_number (last_visit_time r) \<rparr>"

text \<open>
  What a path holds: a history database with the rows of its \<open>urls\<close> table, a database
  without such a table, or a file that is no database (which is also what an interrupted
  copy leaves).
\<close>

datatype contents = HistoryDb "db_row list" | OtherDb | NotADatabase

type_synonym filesystem = "path \<rightharpoonup> contents"

text \<open>
  How \<open>fs.copyFileSync\<close> ends: it succeeds, it fails before the destination is opened
  (nothing is written), or it fails after the destination was opened; in the last case
  it removes the destination itself before it throws.
\<close>

datatype copy_outcome = CopyOk | CopyFailsBeforeWrite | CopyFailsAfterOpen

record env =
  platform :: string                        \<comment> \<open>\<open>process.platform\<close>\<close>
  homedir :: path                           \<comment> \<open>\<open>os.homedir()\<close>\<close>
  tmpdir :: path                            \<comment> \<open>\<open>os.tmpdir()\<close>\<close>
  osRelease :: string                       \<comment> \<open>\<open>os.release()\<close>\<close>
  procVersion :: "string option"            \<comment> \<open>\<open>/proc/version\<close>, \<open>None\<close> when the read throws\<close>
  execSync :: "string \<Rightarrow> string option"     \<comment> \<open>stdout of a command, \<open>None\<close> when it throws\<close>
  dateNow :: nat                            \<comment> \<open>\<open>Date.now()\<close>\<close>
  startOfToday :: int                       \<comment> \<open>local midnight of today, in Unix ms\<close>
  copyOutcome :: copy_outcome               \<comment> \<open>how \<open>fs.copyFileSync\<close> ends\<close>
  unlinkFails :: "path \<Rightarrow> bool"             \<comment> \<open>whether \<open>fs.unlinkSync\<close> of an existing file throws\<close>
  toLocaleString :: "int option \<Rightarrow> string"  \<comment> \<open>\<open>Date.prototype.toLocaleString('ja-JP')\<close>\<close>

text \<open>
  \<open>path.join\<close> joins its non-empty arguments with the separator of the platform and
  normalises the result: empty and \<open>.\<close> segments disappear, a \<open>..\<close> segment removes the
  segment before it, a leading and a trailing separator are kept. On \<open>win32\<close> both
  slashes separate and a drive letter is kept in front; UNC roots are not modelled.
\<close>

definition path_sep :: "env \<Rightarrow> string" where
  "path_sep e = (if platform e = ''win32'' then backslash else ''/'')"

definition is_sep :: "env \<Rightarrow> char \<Rightarrow> bool" where
  "is_sep e c = (if platform e = ''win32'' then c = CHR ''/'' \<or> c = CHR 0x5C else c = CHR ''/'')"

fun split_acc :: "(char \<Rightarrow> bool) \<Rightarrow> string \<Rightarrow> string \<Rightarrow> string list" where
  \<comment> \<open>the segment being read is kept in reverse\<close>
  "split_acc P cur [] = [rev cur]"
| "split_acc P cur (c # cs) =
     (if P c then rev cur # split_acc P [] cs else split_acc P (c # cur) cs)"

definition split_on :: "(char \<Rightarrow> bool) \<Rightarrow> string \<Rightarrow> string list" where
  "split_on P s = split_acc P [] s"

fun resolve :: "bool \<Rightarrow> string list \<Rightarrow> string list \<Rightarrow> string list" where
  \<comment> \<open>the segments seen so far are kept in reverse; \<open>up\<close> allows a relative path
      to climb out of its starting directory\<close>
  "resolve up acc [] = rev acc"
| "resolve up acc (s # ss) =
     (if s = [] \<or> s = ''.'' then resolve up acc ss
      else if s = ''..'' then
        (case acc of
           [] \<Rightarrow> resolve up (if up then [s] else []) ss
         | a # as \<Rightarrow>
             if a = ''..'' then resolve up (if up then s # acc else acc) ss
             else resolve up as ss)
      else resolve up (s # acc) ss)"

definition is_letter :: "char \<Rightarrow> bool" where
  "is_letter c = (c \<in> set ''ABCDEFGHIJKLMNOPQRSTUVWXYZabcdefghijklmnopqrstuvwxyz'')"

definition device_of :: "env \<Rightarrow> path \<Rightarrow> string \<times> string" where
  \<comment> \<open>a drive letter with its colon, and the rest of the path\<close>
  "device_of e p =
     (if platform e = ''win32'' \<and> 2 \<le> length p \<and> is_letter (p ! 0) \<and> p ! 1 = CHR '':''
      then (take 2 p, drop 2 p) else ([], p))"

definition path_normalize :: "env \<Rightarrow> path \<Rightarrow> path" where
  "path_normalize e p =
     (if p = [] then ''.''
      else
        let dev = fst (device_of e p);
            rest = snd (device_of e p);
            absolute = (rest \<noteq> [] \<and> is_sep e (hd rest));
            trailing = is_sep e (last p);
            tail0 = join (path_sep e) (resolve (\<not> absolute) [] (split_on (is_sep e) rest));
            tail1 = (if tail0 = [] \<and> \<not> absolute then ''.'' else tail0);
            tail2 = (if tail1 \<noteq> [] \<and> trailing then tail1 @ path_sep e else tail1)
        in dev @ (if absolute then path_sep e else []) @ tail2)"

definition path_join :: "env \<Rightarrow> path \<Rightarrow> path \<Rightarrow> path" where
  \<comment> \<open>\<open>path.join(dir, rel)\<close>\<close>
  "path_join e dir rel =
     (let joined = join (path_sep e) (filter (\<lambda>a. a \<noteq> []) [dir, rel])
      in if joined = [] then ''.'' else path_normalize e joined)"


definition existsSync :: "filesystem \<Rightarrow> path \<Rightarrow> bool" where
  "existsSync fs p = (fs p \<noteq> None)"

definition copyFileSync :: "env \<Rightarrow> filesystem \<Rightarrow> path \<Rightarrow> path \<Rightarrow> (error + unit) \<times> filesystem" where
  \<comment> \<open>a copy that breaks off has written part of the destination, which
      \<open>fs.copyFileSync\<close> unlinks before it throws\<close>
  "copyFileSync e fs src dst =
     (case fs src of
        None \<Rightarrow> (Inl CopyFailed, fs)
      | Some f \<Rightarrow>
          (case copyOutcome e of
             CopyOk \<Rightarrow> (Inr (), fs(dst \<mapsto> f))
           | CopyFailsBeforeWrite \<Rightarrow> (Inl CopyFailed, fs)
           | CopyFailsAfterOpen \<Rightarrow> (Inl CopyFailed, (fs(dst \<mapsto> NotADatabase))(dst := None))))"

definition unlinkSync :: "env \<Rightarrow> filesystem \<Rightarrow> path \<Rightarrow> (error + unit) \<times> filesystem" where
  "unlinkSync e fs p =
     (if fs p = None \<or> unlinkFails e p then (Inl UnlinkFailed, fs) else (Inr (), fs(p := None)))"

subsection \<open>Platform locator (lines 14 to 49)\<close>

definition isWSL :: "env \<Rightarrow> bool" where
  "isWSL e =
     (if platform e \<noteq> ''linux'' then False
      else case procVersion e of
             None \<Rightarrow> False
           | Some v \<Rightarrow>
               str_includes (toLowerCase (osRelease e)) ''microsoft''
               \<or> str_includes (toLowerCase v) ''microsoft'')"

definition username_command :: string where
  "username_command = ''cmd.exe /c '' @ dquote @ ''echo %USERNAME%'' @ dquote"

definition getWindowsUsername :: "env \<Rightarrow> error + string" where
  "getWindowsUsername e =
     (case execSync e username_command of
        None \<Rightarrow> Inl (IdentityResolutionFailed username_failed_message)
      | Some stdout \<Rightarrow> Inr (trim stdout))"

definition darwin_history :: string where
  "darwin_history = ''Library/Application Support/Google/Chrome/Default/History''"

definition win32_history :: string where
  "win32_history =
     ''AppData'' @ backslash @ ''Local'' @ backslash @ ''Google'' @ backslash @ ''Chrome''
       @ backslash @ ''User Data'' @ backslash @ ''Default'' @ backslash @ ''History''"

definition linux_history :: string where
  "linux_history = ''.config/google-chrome/Default/History''"

definition getChromeHistoryPath :: "env \<Rightarrow> error + path" where
  "getChromeHistoryPath e =
     (let homeDir = homedir e
      in if platform e = ''darwin'' then Inr (path_join e homeDir darwin_history)
         else if platform e = ''win32'' then Inr (path_join e homeDir win32_history)
         else if platform e = ''linux'' then Inr (path_join e homeDir linux_history)
         else Inl (UnsupportedPlatform unsupported_os_message))"

subsection \<open>Snapshot copier (lines 51 to 64)\<close>

definition tempPathOf :: "env \<Rightarrow> path" where
  \<comment> \<open>line 52\<close>
  "tempPathOf e =
     path_join e (tmpdir e) (''chrome_history_copy_'' @ digits (dateNow e) @ ''.sqlite'')"

text \<open>The handle that \<open>copyHistoryFile\<close> returns is represented by its \<open>path\<close> field;
  its \<open>Symbol.dispose\<close> method is the function \<open>dispose\<close>.\<close>

definition copyHistoryFile :: "env \<Rightarrow> filesystem \<Rightarrow> path \<Rightarrow> (error + path) \<times> filesystem" where
  "copyHistoryFile e fs srcPath =
     (let tempPath = tempPathOf e
      in case copyFileSync e fs srcPath tempPath of
           (Inl err, fs') \<Rightarrow> (Inl err, fs')
         | (Inr _, fs') \<Rightarrow> (Inr tempPath, fs'))"

definition dispose :: "env \<Rightarrow> filesystem \<Rightarrow> path \<Rightarrow> (error + unit) \<times> filesystem" where
  "dispose e fs tempPath =
     (if existsSync fs tempPath then unlinkSync e fs tempPath else (Inr (), fs))"

definition using_exit :: "error + 'a \<Rightarrow> error + unit \<Rightarrow> error + 'a" where
  \<comment> \<open>the completion of a scope whose \<open>using\<close> resource has been disposed\<close>
  "using_exit body disposal =
     (case body of
        Inr r \<Rightarrow> (case disposal of Inr _ \<Rightarrow> Inr r | Inl d \<Rightarrow> Inl d)
      | Inl err \<Rightarrow> (case disposal of Inr _ \<Rightarrow> Inl err | Inl d \<Rightarrow> Inl (SuppressedError d err)))"

subsection \<open>History query (lines 66 to 74 and 102 to 127)\<close>

text \<open>
  The database handle is the opened file; closing it has no effect on the file system
  and is not modelled. Opening read-only fails when there is no file. Whether the file
  is a database with a \<open>urls\<close> table is found out only when the statement is prepared.
\<close>

definition openSqlite :: "filesystem \<Rightarrow> path \<Rightarrow> error + contents" where
  "openSqlite fs dbPath =
     (case fs dbPath of
        None \<Rightarrow> Inl OpenFailed
      | Some db \<Rightarrow> Inr db)"

definition order_desc :: "db_row list \<Rightarrow> db_row list" where
  \<comment> \<open>\<open>ORDER BY last_visit_time DESC\<close>; rows with equal times stay in table order\<close>
  "order_desc rs = sort_key (\<lambda>r. - last_visit_time r) rs"

definition sql_limit :: "int \<Rightarrow> 'a list \<Rightarrow> 'a list" where
  \<comment> \<open>\<open>LIMIT n\<close>: a negative \<open>n\<close> means no upper bound\<close>
  "sql_limit n xs = (if n < 0 then xs else take (nat n) xs)"

definition select_urls :: "db_row list \<Rightarrow> number \<Rightarrow> number \<Rightarrow> error + js_row list" where
  \<comment> \<open>the query of lines 116 to 125. The limit is bound as a number: one that is no
      integer, or no integer strictly between \<open>-2\<^sup>6\<^sup>3\<close> and \<open>2\<^sup>6\<^sup>3\<close>, is a datatype
      mismatch. The comparison with the bound is on the stored integers; the selected
      rows reach JavaScript with their times converted to numbers\<close>
  "select_urls urls bound cnt =
     (if cnt \<noteq> of_int \<lfloor>cnt\<rfloor> \<or> 2 ^ 63 \<le> \<bar>cnt\<bar> then Inl QueryFailed
      else Inr (map to_js_row
                  (sql_limit \<lfloor>cnt\<rfloor>
                     (order_desc (filter (\<lambda>r. bound < of_int (last_visit_time r)) urls)))))"

definition prepare_all :: "contents \<Rightarrow> number \<Rightarrow> number \<Rightarrow> error + js_row list" where
  \<comment> \<open>\<open>db.prepare(query).all(chromeTimeStart, limit || 10)\<close>\<close>
  "prepare_all db bound cnt =
     (case db of HistoryDb urls \<Rightarrow> select_urls urls bound cnt | _ \<Rightarrow> Inl QueryFailed)"

definition limit_or_10 :: "number option \<Rightarrow> number" where
  \<comment> \<open>\<open>limit || 10\<close>: \<open>undefined\<close> and \<open>0\<close> are the falsy values of an optional number
      that passed the schema\<close>
  "limit_or_10 limit = (case limit of None \<Rightarrow> 10 | Some n \<Rightarrow> if n = 0 then 10 else n)"

definition queryRows :: "env \<Rightarrow> filesystem \<Rightarrow> path \<Rightarrow> number option \<Rightarrow> error + js_row list" where
  \<comment> \<open>lines 102 to 127: open the copy, compute the bound, run the query\<close>
  "queryRows e fs dbPath limit =
     (case openSqlite fs dbPath of
        Inl err \<Rightarrow> Inl err
      | Inr db \<Rightarrow> prepare_all db (chromeTimeStart (of_int (startOfToday e))) (limit_or_10 limit))"

subsection \<open>Formatting (lines 129 to 156)\<close>

record entry =
  entry_title :: string
  entry_url :: string
  entry_time :: string

record response =
  content_text :: string          \<comment> \<open>\<open>content[0].text\<close>\<close>
  structured_result :: string     \<comment> \<open>\<open>structuredContent.result\<close>\<close>

definition toEntry :: "env \<Rightarrow> js_row \<Rightarrow> entry" where
  "toEntry e r =
     \<lparr> entry_title = (case title r of None \<Rightarrow> ''No Title''
                                  | Some t \<Rightarrow> if t = [] then ''No Title'' else t),
       entry_url = url r,
       entry_time = toLocaleString e (newDate (visitTimeMs (last_visit_time r))) \<rparr>"

definition formatEntry :: "entry \<Rightarrow> string" where
  "formatEntry x =
     ''## '' @ entry_title x @ newline @ ''  - URL: '' @ entry_url x @ newline
       @ ''  - Visited At: '' @ entry_time x @ newline"

definition formattedHistory :: "env \<Rightarrow> js_row list \<Rightarrow> string" where
  "formattedHistory e rs = join newline (map formatEntry (map (toEntry e) rs))"

definition respond :: "string \<Rightarrow> response" where
  "respond s =
     (let t = (if s = [] then ''No browsing history found.'' else s)
      in \<lparr> content_text = t, structured_result = t \<rparr>)"

subsection \<open>The tool handler (lines 90 to 157)\<close>

definition queryAndFormat :: "env \<Rightarrow> filesystem \<Rightarrow> path \<Rightarrow> number option \<Rightarrow> error + response" where
  \<comment> \<open>lines 102 to 156: the rest of the scope once the copy exists\<close>
  "queryAndFormat e fs tempPath limit =
     (case queryRows e fs tempPath limit of
        Inl err \<Rightarrow> Inl err
      | Inr rows \<Rightarrow> Inr (respond (formattedHistory e rows)))"

definition handler :: "env \<Rightarrow> filesystem \<Rightarrow> number option \<Rightarrow> (error + response) \<times> filesystem" where
  "handler e fs limit =
     (case getChromeHistoryPath e of
        Inl err \<Rightarrow> (Inl err, fs)
      | Inr historyPath \<Rightarrow>
          if \<not> existsSync fs historyPath
          then (Inl (SourceNotFound (not_found_prefix @ historyPath)), fs)
          else
            (case copyHistoryFile e fs historyPath of
               (Inl err, fs1) \<Rightarrow> (Inl err, fs1)
             | (Inr tempPath, fs1) \<Rightarrow>
                 (let body = queryAndFormat e fs1 tempPath limit;
                      (disposal, fs2) = dispose e fs1 tempPath
                  in (using_exit body disposal, fs2))))"

subsection \<open>Example inputs\<close>

definition linux_env :: env where
  "linux_env =
     \<lparr> platform = ''linux'', homedir = ''/home/u'', tmpdir = ''/tmp'',
       osRelease = ''6.8.0-45-generic'',
       procVersion = Some ''Linux version 6.8.0-45-generic (gcc 13.2.0)'',
       execSync = (\<lambda>_. None), dateNow = 1793700000123, startOfToday = 1793664000000,
       copyOutcome = CopyOk, unlinkFails = (\<lambda>_. False),
       toLocaleString = (\<lambda>_. ''2026/11/3 10:00:00'') \<rparr>"

definition wsl_env :: env where
  \<comment> \<open>a Linux guest on a Windows host whose user is \<open>alice\<close>\<close>
  "wsl_env =
     linux_env
       \<lparr> homedir := ''/home/guest'',
         osRelease := ''5.15.153.1-microsoft-standard-WSL2'',
         procVersion := Some ''Linux version 5.15.153.1-microsoft-standard-WSL2'',
         execSync := (\<lambda>c. if c = username_command then Some (''alice'' @ [CHR 0x0D, CHR 0x0A])
                           else None) \<rparr>"

definition linux_history_path :: path where
  "linux_history_path = ''/home/u/.config/google-chrome/Default/History''"

definition linux_temp_path :: path where
  "linux_temp_path = ''/tmp/chrome_history_copy_1793700000123.sqlite''"

definition visit :: "int \<Rightarrow> db_row" where
  "visit t = \<lparr> title = None, url = ''https://example.org/'', last_visit_time = t \<rparr>"

definition three_today :: "db_row list" where
  \<comment> \<open>three visits after local midnight (raw 13438137600000000) and one before it\<close>
  "three_today =
     map visit [13438137600000002, 13438137599999999, 13438137600000003, 13438137600000001]"

definition eleven_today :: "db_row list" where
  "eleven_today =
     map visit [13438137600000001, 13438137600000002, 13438137600000003, 13438137600000004,
                13438137600000005, 13438137600000006, 13438137600000007, 13438137600000008,
                13438137600000009, 13438137600000010, 13438137600000011]"

definition example_fs :: filesystem where
  "example_fs = [linux_history_path \<mapsto> HistoryDb three_today]"

definition busy_fs :: filesystem where
  "busy_fs = [linux_history_path \<mapsto> HistoryDb eleven_today]"

definition freebsd_env :: env where
  "freebsd_env = linux_env \<lparr> platform := ''freebsd'' \<rparr>"

definition stuck_env :: env where
  \<comment> \<open>as \<open>linux_env\<close>, but the temporary file cannot be unlinked\<close>
  "stuck_env = linux_env \<lparr> unlinkFails := (\<lambda>_. True) \<rparr>"

definition broken_copy_env :: env where
  \<comment> \<open>as \<open>linux_env\<close>, but the copy breaks off after it has opened the destination\<close>
  "broken_copy_env = linux_env \<lparr> copyOutcome := CopyFailsAfterOpen \<rparr>"

definition three_sorted :: "db_row list" where
  "three_sorted = map visit [13438137600000003, 13438137600000002, 13438137600000001]"

definition clean_fail_env :: env where
  \<comment> \<open>as \<open>linux_env\<close>, but the copy fails before it writes anything\<close>
  "clean_fail_env = linux_env \<lparr> copyOutcome := CopyFailsBeforeWrite \<rparr>"

definition busy_snapshot_fs :: filesystem where
  "busy_snapshot_fs = busy_fs(linux_temp_path \<mapsto> HistoryDb eleven_today)"

definition snapshot_fs :: filesystem where
  \<comment> \<open>\<open>example_fs\<close> with the snapshot of \<open>linux_env\<close> in place\<close>
  "snapshot_fs = example_fs(linux_temp_path \<mapsto> HistoryDb three_today)"

section \<open>Properties\<close>

subsection \<open>Rounding to binary64\<close>

text \<open>
  \<open>ilog2\<close> is the binary exponent of a positive rational; \<open>fl\<close> leaves every value
  \<open>m * 2\<^sup>k\<close> with \<open>\<bar>m\<bar> < 2\<^sup>5\<^sup>3\<close> unchanged, and never crosses such a value.
\<close>

declare bitlen.simps [simp del]

lemma bitlen_bounds: "0 < n \<Longrightarrow> 2 ^ (bitlen n - 1) \<le> n \<and> n < 2 ^ bitlen n"
proof (induction n rule: bitlen.induct)
  case (1 n)
  show ?case
  proof (cases "n div 2 = 0")
    case True
    with "1.prems" have "n = 1" by auto
    then show ?thesis by (simp add: bitlen.simps [of "Suc 0"] bitlen.simps [of 0])
  next
    case False
    then have pos: "0 < n div 2" by simp
    from "1.IH" [OF _ pos] "1.prems"
    have ih: "2 ^ (bitlen (n div 2) - 1) \<le> n div 2" "n div 2 < 2 ^ bitlen (n div 2)"
      by auto
    have b: "bitlen n = Suc (bitlen (n div 2))"
      using "1.prems" by (simp add: bitlen.simps [of n])
    have bpos: "0 < bitlen (n div 2)"
      using pos by (simp add: bitlen.simps [of "n div 2"])
    have "2 ^ (bitlen n - 1) = 2 * 2 ^ (bitlen (n div 2) - 1)"
      using b bpos by (cases "bitlen (n div 2)") auto
    also have "\<dots> \<le> 2 * (n div 2)" using ih(1) by simp
    also have "\<dots> \<le> n" by simp
    finally have lo: "2 ^ (bitlen n - 1) \<le> n" .
    have "n < 2 * (n div 2) + 2" by arith
    also have "\<dots> \<le> 2 * 2 ^ bitlen (n div 2)" using ih(2) by arith
    finally have hi: "n < 2 ^ bitlen n" using b by simp
    show ?thesis using lo hi by simp
  qed
qed

lemma bitlen_pos: "0 < n \<Longrightarrow> 0 < bitlen n"
  by (simp add: bitlen.simps [of n])

lemma ilog2_le:
  assumes "0 < q"
  shows "power_int 2 (ilog2 q) \<le> q"
proof -
  obtain a b where ab: "quotient_of q = (a, b)" by (cases "quotient_of q")
  have bpos: "0 < b" using ab by (rule quotient_of_denom_pos)
  have q: "q = of_int a / of_int b" using ab by (rule quotient_of_div)
  have apos: "0 < a"
    using assms bpos q by (simp add: zero_less_divide_iff)
  define la where "la = bitlen (nat a)"
  define lb where "lb = bitlen (nat b)"
  have la: "2 ^ (la - 1) \<le> nat a" and lapos: "0 < la"
    using bitlen_bounds [of "nat a"] bitlen_pos [of "nat a"] apos by (simp_all add: la_def)
  have lb: "nat b < 2 ^ lb"
    using bitlen_bounds [of "nat b"] bpos by (simp add: lb_def)
  have a_ge: "(2::rat) ^ (la - 1) \<le> of_int a"
  proof -
    have "int (2 ^ (la - 1)) \<le> int (nat a)" using la by (simp only: of_nat_le_iff)
    then have "(2::int) ^ (la - 1) \<le> a" using apos by simp
    then have "(of_int ((2::int) ^ (la - 1)) :: rat) \<le> of_int a" by (simp only: of_int_le_iff)
    then show ?thesis by simp
  qed
  have b_lt: "(of_int b :: rat) < 2 ^ lb"
  proof -
    have "int (nat b) < int (2 ^ lb)" using lb by (simp only: of_nat_less_iff)
    then have "b < (2::int) ^ lb" using bpos by simp
    then have "(of_int b :: rat) < of_int ((2::int) ^ lb)" by (simp only: of_int_less_iff)
    then show ?thesis by simp
  qed
  have low: "power_int 2 (int la - int lb - 1) \<le> q"
  proof -
    have "int la - int lb - 1 = int (la - 1) - int lb"
      using lapos by arith
    then have "power_int (2::rat) (int la - int lb - 1) = power_int 2 (int (la - 1) - int lb)"
      by (simp only:)
    also have "\<dots> = 2 ^ (la - 1) / 2 ^ lb"
      by (simp add: power_int_diff)
    also have "\<dots> \<le> of_int a / 2 ^ lb"
      using a_ge by (simp add: divide_right_mono)
    also have "\<dots> \<le> of_int a / of_int b"
      using b_lt bpos apos by (intro divide_left_mono) (auto intro: less_imp_le)
    finally show ?thesis using q by simp
  qed
  show ?thesis
    using low ab by (simp add: ilog2_def Let_def la_def lb_def)
qed

lemma round_half_even_of_int [simp]: "round_half_even (of_int n) = n"
  by (simp add: round_half_even_def)

lemma fl_exact:
  assumes q: "q = of_int m * power_int 2 k" and m: "\<bar>m\<bar> < 2 ^ 53" and k: "- 1074 \<le> k"
  shows "fl q = q"
proof (cases "q = 0")
  case True
  then show ?thesis by (simp add: fl_def)
next
  case False
  define e where "e = max (ilog2 \<bar>q\<bar> - 52) (- 1074)"
  have absq: "\<bar>q\<bar> = of_int \<bar>m\<bar> * power_int 2 k"
    using q by (simp add: abs_mult)
  have "power_int 2 (ilog2 \<bar>q\<bar>) \<le> \<bar>q\<bar>"
    using False by (intro ilog2_le) simp
  also have "\<bar>q\<bar> < 2 ^ 53 * power_int 2 k"
  proof -
    have "(of_int \<bar>m\<bar> :: rat) < of_int (2 ^ 53)" using m by (simp only: of_int_less_iff)
    then show ?thesis unfolding absq by (intro mult_strict_right_mono) simp_all
  qed
  also have "\<dots> = power_int 2 (53 + k)"
    by (simp add: power_int_add)
  finally have lt: "power_int (2::rat) (ilog2 \<bar>q\<bar>) < power_int 2 (53 + k)" .
  have "ilog2 \<bar>q\<bar> < 53 + k"
  proof (rule ccontr)
    assume "\<not> ilog2 \<bar>q\<bar> < 53 + k"
    then have "53 + k \<le> ilog2 \<bar>q\<bar>" by simp
    then have "power_int (2::rat) (53 + k) \<le> power_int 2 (ilog2 \<bar>q\<bar>)"
      by (rule power_int_increasing) simp
    with lt show False by simp
  qed
  then have ek: "e \<le> k" using k by (simp add: e_def)
  define j where "j = nat (k - e)"
  have kj: "k = e + int j" using ek by (simp add: j_def)
  have scaled: "\<bar>q\<bar> / power_int 2 e = of_int (\<bar>m\<bar> * 2 ^ j)"
    unfolding absq kj by (simp add: power_int_add)
  have "fl q = sgn q * of_int (round_half_even (\<bar>q\<bar> / power_int 2 e)) * power_int 2 e"
    using False by (simp add: fl_def e_def Let_def)
  also have "\<dots> = sgn q * (\<bar>q\<bar> / power_int 2 e) * power_int 2 e"
    unfolding scaled round_half_even_of_int ..
  also have "\<dots> = sgn q * \<bar>q\<bar>" by simp
  also have "\<dots> = q" by (simp add: sgn_mult_abs)
  finally show ?thesis .
qed

lemma fl_of_int: "\<bar>n\<bar> < 2 ^ 53 \<Longrightarrow> fl (of_int n) = of_int n"
  using fl_exact [of "of_int n" n 0] by simp

lemma fl_of_int_times_8: "\<bar>n\<bar> < 2 ^ 53 \<Longrightarrow> fl (of_int (n * 8)) = of_int (n * 8)"
  using fl_exact [of "of_int (n * 8)" n 3] by simp


lemma ilog2_less:
  assumes "0 < q"
  shows "q < power_int 2 (ilog2 q + 1)"
proof -
  obtain a b where ab: "quotient_of q = (a, b)" by (cases "quotient_of q")
  have bpos: "0 < b" using ab by (rule quotient_of_denom_pos)
  have q: "q = of_int a / of_int b" using ab by (rule quotient_of_div)
  have apos: "0 < a"
    using assms bpos q by (simp add: zero_less_divide_iff)
  define la where "la = bitlen (nat a)"
  define lb where "lb = bitlen (nat b)"
  have la: "nat a < 2 ^ la"
    using bitlen_bounds [of "nat a"] apos by (simp add: la_def)
  have lb: "2 ^ (lb - 1) \<le> nat b" and lbpos: "0 < lb"
    using bitlen_bounds [of "nat b"] bitlen_pos [of "nat b"] bpos by (simp_all add: lb_def)
  have a_lt: "(of_int a :: rat) < 2 ^ la"
  proof -
    have "int (nat a) < int (2 ^ la)" using la by (simp only: of_nat_less_iff)
    then have "a < (2::int) ^ la" using apos by simp
    then have "(of_int a :: rat) < of_int ((2::int) ^ la)" by (simp only: of_int_less_iff)
    then show ?thesis by simp
  qed
  have b_ge: "(2::rat) ^ (lb - 1) \<le> of_int b"
  proof -
    have "int (2 ^ (lb - 1)) \<le> int (nat b)" using lb by (simp only: of_nat_le_iff)
    then have "(2::int) ^ (lb - 1) \<le> b" using bpos by simp
    then have "(of_int ((2::int) ^ (lb - 1)) :: rat) \<le> of_int b" by (simp only: of_int_le_iff)
    then show ?thesis by simp
  qed
  have high: "q < power_int 2 (int la - int lb + 1)"
  proof -
    have "q = of_int a / of_int b" by (rule q)
    also have "\<dots> < 2 ^ la / of_int b"
      using a_lt bpos by (simp add: divide_strict_right_mono)
    also have "\<dots> \<le> 2 ^ la / 2 ^ (lb - 1)"
      using b_ge bpos by (intro divide_left_mono) simp_all
    also have "\<dots> = power_int 2 (int la - int (lb - 1))"
      by (simp add: power_int_diff)
    also have "int la - int (lb - 1) = int la - int lb + 1"
      using lbpos by arith
    finally show ?thesis .
  qed
  show ?thesis
    using high ab by (auto simp: ilog2_def Let_def la_def lb_def)
qed

lemma ilog2_unique:
  assumes "power_int 2 L \<le> q" and "q < power_int 2 (L + 1)"
  shows "ilog2 q = L"
proof -
  have "0 < power_int (2::rat) L" by simp
  then have qpos: "0 < q" using assms(1) by (rule less_le_trans)
  have lo: "power_int 2 (ilog2 q) \<le> q" and hi: "q < power_int 2 (ilog2 q + 1)"
    using qpos by (rule ilog2_le, rule ilog2_less)
  have "\<not> L + 1 \<le> ilog2 q"
  proof
    assume "L + 1 \<le> ilog2 q"
    then have "power_int (2::rat) (L + 1) \<le> power_int 2 (ilog2 q)"
      by (rule power_int_increasing) simp
    with lo assms(2) show False by simp
  qed
  moreover have "\<not> ilog2 q + 1 \<le> L"
  proof
    assume "ilog2 q + 1 \<le> L"
    then have "power_int (2::rat) (ilog2 q + 1) \<le> power_int 2 L"
      by (rule power_int_increasing) simp
    with hi assms(1) show False by simp
  qed
  ultimately show ?thesis by simp
qed

lemma fl_eval:
  assumes "power_int 2 L \<le> q" and "q < power_int 2 (L + 1)" and "- 1074 \<le> L - 52"
  shows "fl q = of_int (round_half_even (q / power_int 2 (L - 52))) * power_int 2 (L - 52)"
proof -
  have "0 < power_int (2::rat) L" by simp
  then have qpos: "0 < q" using assms(1) by (rule less_le_trans)
  have "ilog2 \<bar>q\<bar> = L"
    using assms(1,2) qpos by (simp add: ilog2_unique)
  moreover have "max (L - 52) (- 1074) = L - 52"
    using assms(3) by simp
  moreover have "q \<noteq> 0" "sgn q = 1" "\<bar>q\<bar> = q"
    using qpos by simp_all
  ultimately show ?thesis
    by (simp add: fl_def Let_def)
qed

lemma chromeTimeStart_exact:
  assumes "0 \<le> t" and "t \<le> 60413120437927"
  shows "chromeTimeStart (of_int t) = of_int ((t + 11644473600000) * 1000)"
proof -
  have "js_add (of_int t) WEBKIT_EPOCH_OFFSET = fl (of_int (t + 11644473600000))"
    by (simp add: js_add_def WEBKIT_EPOCH_OFFSET_def)
  also have "\<dots> = of_int (t + 11644473600000)"
    using assms by (intro fl_of_int) simp
  finally have s: "js_add (of_int t) WEBKIT_EPOCH_OFFSET = of_int (t + 11644473600000)" .
  have "(of_int (t + 11644473600000) :: rat) * 1000 = of_int ((t + 11644473600000) * 125 * 8)"
    by simp
  then have "js_mul (of_int (t + 11644473600000)) 1000
        = fl (of_int ((t + 11644473600000) * 125 * 8))"
    by (simp only: js_mul_def)
  also have "\<dots> = of_int ((t + 11644473600000) * 125 * 8)"
    using assms by (intro fl_of_int_times_8) simp
  finally show ?thesis
    by (simp add: chromeTimeStart_def s)
qed



lemma round_half_even_tie:
  "x = of_int f + 1 / 2 \<Longrightarrow> round_half_even x = (if even f then f else f + 1)"
proof -
  assume x: "x = of_int f + 1 / 2"
  have "\<lfloor>x\<rfloor> = f" unfolding x by (rule floor_unique) simp_all
  then show ?thesis by (simp add: round_half_even_def Let_def x)
qed

lemma round_half_even_down:
  "of_int f \<le> x \<Longrightarrow> x < of_int f + 1 / 2 \<Longrightarrow> round_half_even x = f"
proof -
  assume a: "of_int f \<le> x" "x < of_int f + 1 / 2"
  have "\<lfloor>x\<rfloor> = f" using a by (intro floor_unique) simp_all
  then show ?thesis using a by (simp add: round_half_even_def Let_def)
qed




lemma round_half_even_ge: "of_int n \<le> x \<Longrightarrow> n \<le> round_half_even x"
proof -
  assume "of_int n \<le> x"
  then have "n \<le> \<lfloor>x\<rfloor>" by (simp add: le_floor_iff)
  moreover have "\<lfloor>x\<rfloor> \<le> round_half_even x"
    by (simp add: round_half_even_def Let_def)
  ultimately show ?thesis by simp
qed

lemma round_half_even_le: "x \<le> of_int n \<Longrightarrow> round_half_even x \<le> n"
proof -
  assume a: "x \<le> of_int n"
  have fl_le: "\<lfloor>x\<rfloor> \<le> n" using a by (simp add: floor_le_iff) 
  show ?thesis
  proof (cases "x = of_int \<lfloor>x\<rfloor>")
    case True
    then have "x - of_int \<lfloor>x\<rfloor> = 0" by simp
    then have "round_half_even x = \<lfloor>x\<rfloor>"
      by (simp add: round_half_even_def Let_def)
    with fl_le show ?thesis by simp
  next
    case False
    have "of_int \<lfloor>x\<rfloor> < x" using False by (metis less_le of_int_floor_le)
    also note a
    finally have "\<lfloor>x\<rfloor> < n" by simp
    moreover have "round_half_even x \<le> \<lfloor>x\<rfloor> + 1"
      by (simp add: round_half_even_def Let_def)
    ultimately show ?thesis by simp
  qed
qed

lemma fl_pos:
  assumes "0 < q"
  shows "fl q = of_int (round_half_even (q / power_int 2 (max (ilog2 q - 52) (- 1074))))
                 * power_int 2 (max (ilog2 q - 52) (- 1074))"
proof -
  have "q \<noteq> 0" "sgn q = 1" "\<bar>q\<bar> = q" using assms by simp_all
  then show ?thesis by (simp add: fl_def Let_def)
qed

lemma pow_split:
  assumes "e \<le> int j"
  shows "(2::rat) ^ j = 2 ^ nat (int j - e) * power_int 2 e"
proof -
  define i where "i = nat (int j - e)"
  have ij: "int i + e = int j" using assms by (simp add: i_def)
  have "power_int (2::rat) (int i + e) = power_int 2 (int i) * power_int 2 e"
    by (rule power_int_add) simp
  then have "power_int (2::rat) (int j) = 2 ^ i * power_int 2 e"
    unfolding ij by (simp only: power_int_of_nat)
  then show ?thesis by (simp only: power_int_of_nat i_def)
qed

lemma big_when_exponent_large:
  assumes "0 < q" and e: "e = max (ilog2 q - 52) (- 1074)" and "int j < e"
  shows "(2::rat) ^ 53 * 2 ^ j \<le> 2 ^ 52 * power_int 2 e" and "2 ^ 52 * power_int 2 e \<le> q"
proof -
  have e': "e = ilog2 q - 52" using e assms(3) by (simp add: max_def split: if_splits)
  have "53 + int j \<le> 52 + e" using assms(3) by simp
  then have "power_int (2::rat) (53 + int j) \<le> power_int 2 (52 + e)"
    by (rule power_int_increasing) simp
  then show "(2::rat) ^ 53 * 2 ^ j \<le> 2 ^ 52 * power_int 2 e"
    by (simp add: power_int_add)
  have "(2::rat) ^ 52 * power_int 2 e = power_int 2 (52 + e)"
    by (simp add: power_int_add)
  also have "\<dots> = power_int 2 (ilog2 q)" using e' by simp
  also have "\<dots> \<le> q" using assms(1) by (rule ilog2_le)
  finally show "2 ^ 52 * power_int 2 e \<le> q" .
qed


lemma fl_le:
  assumes M: "M < 2 ^ 53" and q: "0 < q" and le: "q \<le> of_int M * 2 ^ j"
  shows "fl q \<le> of_int M * 2 ^ j"
proof -
  define e where "e = max (ilog2 q - 52) (- 1074)"
  have pe: "0 < power_int (2::rat) e" by simp
  have flq: "fl q = of_int (round_half_even (q / power_int 2 e)) * power_int 2 e"
    using fl_pos [OF q] by (simp add: e_def)
  show ?thesis
  proof (cases "e \<le> int j")
    case True
    define i where "i = nat (int j - e)"
    have split: "(2::rat) ^ j = 2 ^ i * power_int 2 e"
      using pow_split [OF True] by (simp add: i_def)
    have "q \<le> of_int (M * 2 ^ i) * power_int 2 e"
      using le by (simp add: split mult.assoc)
    then have "q / power_int 2 e \<le> of_int (M * 2 ^ i)"
      using pe by (simp add: pos_divide_le_eq)
    then have "round_half_even (q / power_int 2 e) \<le> M * 2 ^ i"
      by (rule round_half_even_le)
    then have "(of_int (round_half_even (q / power_int 2 e)) :: rat) \<le> of_int (M * 2 ^ i)"
      by (simp only: of_int_le_iff)
    then have "fl q \<le> of_int (M * 2 ^ i) * power_int 2 e"
      unfolding flq using pe by (simp only: mult_le_cancel_right_pos)
    then show ?thesis by (simp add: split mult.assoc)
  next
    case False
    then have lt: "int j < e" by simp
    note big = big_when_exponent_large [OF q e_def lt]
    have "of_int M * 2 ^ j < (2::rat) ^ 53 * 2 ^ j"
    proof -
      have "(of_int M :: rat) < of_int (2 ^ 53)" using M by (simp only: of_int_less_iff)
      then show ?thesis by (intro mult_strict_right_mono) simp_all
    qed
    with big le have False by linarith
    then show ?thesis ..
  qed
qed



subsection \<open>Timestamp conversion\<close>




subsection \<open>Rounding is monotone and idempotent\<close>

lemma round_half_even_bounds:
  "of_int \<lfloor>x\<rfloor> \<le> (of_int (round_half_even x) :: rat)"
  "round_half_even x \<le> \<lfloor>x\<rfloor> + 1"
  "\<lfloor>x\<rfloor> \<le> round_half_even x"
  by (simp_all add: round_half_even_def Let_def)

lemma round_half_even_err: "\<bar>of_int (round_half_even x) - x\<bar> \<le> 1 / 2"
proof -
  define f where "f = \<lfloor>x\<rfloor>"
  have a: "of_int f \<le> x" "x < of_int f + 1" unfolding f_def by linarith+
  have "round_half_even x = f \<and> x - of_int f \<le> 1 / 2
        \<or> round_half_even x = f + 1 \<and> 1 / 2 \<le> x - of_int f"
    unfolding round_half_even_def Let_def f_def [symmetric] by auto
  then show ?thesis
    using a by (auto simp: abs_if)
qed

lemma round_half_even_mono:
  assumes "x \<le> y"
  shows "round_half_even x \<le> round_half_even y"
proof (cases "\<lfloor>x\<rfloor> = \<lfloor>y\<rfloor>")
  case True
  then show ?thesis
    using assms by (auto simp: round_half_even_def Let_def)
next
  case False
  have "\<lfloor>x\<rfloor> \<le> \<lfloor>y\<rfloor>" using assms by (rule floor_mono)
  with False have "\<lfloor>x\<rfloor> + 1 \<le> \<lfloor>y\<rfloor>" by simp
  then show ?thesis
    using round_half_even_bounds(2) [of x] round_half_even_bounds(3) [of y] by linarith
qed

lemma round_half_even_up:
  assumes "of_int M - 1 / 2 < x"
  shows "M \<le> round_half_even x"
proof (cases "of_int M \<le> x")
  case True
  then show ?thesis by (rule round_half_even_ge)
next
  case False
  then have lt: "x < of_int M" by simp
  have "of_int (M - 1) \<le> x" using assms by simp
  then have "\<lfloor>x\<rfloor> = M - 1" using lt by (intro floor_unique) simp_all
  then show ?thesis
    using assms by (simp add: round_half_even_def Let_def)
qed

lemma round_half_even_near:
  assumes "\<bar>x - of_int k\<bar> < 1 / 2"
  shows "round_half_even x = k"
proof -
  have "k \<le> round_half_even x"
    using assms by (intro round_half_even_up) (simp add: abs_if split: if_splits)
  moreover have "round_half_even x \<le> k"
  proof (cases "x \<le> of_int k")
    case True
    then show ?thesis by (rule round_half_even_le)
  next
    case False
    then have "of_int k \<le> x" "x < of_int k + 1 / 2" using assms by (simp_all add: abs_if)
    then show ?thesis by (simp add: round_half_even_down)
  qed
  ultimately show ?thesis by simp
qed

lemma fl_neg: "fl (- q) = - fl q"
  by (simp add: fl_def Let_def)

lemma fl_zero [simp]: "fl 0 = 0"
  by (simp add: fl_def)

lemma fl_nonneg:
  assumes "0 \<le> q"
  shows "0 \<le> fl q"
proof (cases "q = 0")
  case True
  then show ?thesis by simp
next
  case False
  then have q: "0 < q" using assms by simp
  have "0 \<le> q / power_int 2 (max (ilog2 q - 52) (- 1074))" using q by simp
  then have "0 \<le> round_half_even (q / power_int 2 (max (ilog2 q - 52) (- 1074)))"
    using round_half_even_ge [of 0] by simp
  then show ?thesis
    unfolding fl_pos [OF q] by simp
qed

lemma ilog2_mono:
  assumes "0 < a" and "a \<le> b"
  shows "ilog2 a \<le> ilog2 b"
proof (rule ccontr)
  assume "\<not> ilog2 a \<le> ilog2 b"
  then have "ilog2 b + 1 \<le> ilog2 a" by simp
  then have "power_int (2::rat) (ilog2 b + 1) \<le> power_int 2 (ilog2 a)"
    by (rule power_int_increasing) simp
  also have "\<dots> \<le> a" using assms(1) by (rule ilog2_le)
  also note assms(2)
  finally have "power_int 2 (ilog2 b + 1) \<le> b" .
  moreover have "b < power_int 2 (ilog2 b + 1)"
    using assms by (intro ilog2_less) simp
  ultimately show False by simp
qed

text \<open>The significand and the exponent of a rounded positive value.\<close>

lemma fl_form:
  assumes q: "0 < q"
  defines "e \<equiv> max (ilog2 q - 52) (- 1074)"
  defines "M \<equiv> round_half_even (q / power_int 2 e)"
  shows "fl q = of_int M * power_int 2 e" and "0 \<le> M" and "M \<le> 2 ^ 53"
    and "ilog2 q - 52 = e \<Longrightarrow> 2 ^ 52 \<le> M"
proof -
  have pe: "0 < power_int (2::rat) e" by simp
  show "fl q = of_int M * power_int 2 e"
    using fl_pos [OF q] by (simp add: e_def M_def)
  have "0 \<le> q / power_int 2 e" using q by simp
  then show "0 \<le> M"
    unfolding M_def using round_half_even_ge [of 0] by simp
  have "ilog2 q + 1 \<le> e + 53" by (simp add: e_def)
  then have "power_int (2::rat) (ilog2 q + 1) \<le> power_int 2 (e + 53)"
    by (rule power_int_increasing) simp
  then have "q \<le> power_int 2 (e + 53)"
    using ilog2_less [OF q] by simp
  also have "\<dots> = power_int 2 e * 2 ^ 53"
    by (simp add: power_int_add)
  finally have "q / power_int 2 e \<le> of_int (2 ^ 53)"
    using pe by (simp add: pos_divide_le_eq mult.commute)
  then show "M \<le> 2 ^ 53"
    unfolding M_def by (rule round_half_even_le)
  assume "ilog2 q - 52 = e"
  then have "ilog2 q = e + 52" by linarith
  then have "power_int (2::rat) (ilog2 q) = power_int 2 (e + 52)" by simp
  also have "\<dots> = power_int 2 e * 2 ^ 52" by (simp add: power_int_add)
  finally have "power_int 2 e * 2 ^ 52 \<le> q"
    using ilog2_le [OF q] by simp
  then have "of_int (2 ^ 52) \<le> q / power_int 2 e"
    using pe by (simp add: pos_le_divide_eq mult.commute)
  then show "2 ^ 52 \<le> M"
    unfolding M_def by (rule round_half_even_ge)
qed

lemma fl_idem: "fl (fl q) = fl q"
proof -
  have pos: "fl (fl q) = fl q" if q: "0 < q" for q
  proof -
    define e where "e = max (ilog2 q - 52) (- 1074)"
    define M where "M = round_half_even (q / power_int 2 e)"
    note f = fl_form [OF q, folded e_def M_def]
    have e: "- 1074 \<le> e" by (simp add: e_def)
    show ?thesis
    proof (cases "M < 2 ^ 53")
      case True
      then show ?thesis
        using f(1,2) e by (intro fl_exact [where m = M and k = e]) simp_all
    next
      case False
      then have M: "M = 2 ^ 53" using f(3) by simp
      have "fl q = of_int (2 ^ 52) * power_int 2 (e + 1)"
        unfolding f(1) M by (simp add: power_int_add)
      then show ?thesis
        using e by (intro fl_exact [where m = "2 ^ 52" and k = "e + 1"]) simp_all
    qed
  qed
  consider "0 < q" | "q = 0" | "q < 0" by linarith
  then show ?thesis
  proof cases
    case 1
    then show ?thesis by (rule pos)
  next
    case 2
    then show ?thesis by simp
  next
    case 3
    then have "fl (fl (- q)) = fl (- q)" by (intro pos) simp
    then show ?thesis by (simp add: fl_neg)
  qed
qed

lemma fl_mono_pos:
  assumes a: "0 < a" and ab: "a \<le> b"
  shows "fl a \<le> fl b"
proof -
  have b: "0 < b" using a ab by simp
  define ea where "ea = max (ilog2 a - 52) (- 1074)"
  define eb where "eb = max (ilog2 b - 52) (- 1074)"
  note fa = fl_form [OF a, folded ea_def]
  note fb = fl_form [OF b, folded eb_def]
  have le: "ea \<le> eb"
    using ilog2_mono [OF a ab] by (simp add: ea_def eb_def)
  show ?thesis
  proof (cases "ea = eb")
    case True
    have "a / power_int 2 ea \<le> b / power_int 2 ea"
      using ab by (simp add: divide_right_mono)
    then have "round_half_even (a / power_int 2 ea) \<le> round_half_even (b / power_int 2 ea)"
      by (rule round_half_even_mono)
    then have "(of_int (round_half_even (a / power_int 2 ea)) :: rat)
               \<le> of_int (round_half_even (b / power_int 2 ea))"
      by (simp only: of_int_le_iff)
    then show ?thesis
      unfolding fa(1) fb(1) True [symmetric] by (intro mult_right_mono) simp_all
  next
    case False
    then have lt: "ea + 1 \<le> eb" using le by simp
    then have eb: "ilog2 b - 52 = eb" by (simp add: ea_def eb_def)
    have "(of_int (round_half_even (a / power_int 2 ea)) :: rat) \<le> of_int (2 ^ 53)"
      using fa(3) by (simp only: of_int_le_iff)
    then have "fl a \<le> of_int (2 ^ 53) * power_int 2 ea"
      unfolding fa(1) by (intro mult_right_mono) simp_all
    also have "\<dots> = 2 ^ 52 * power_int 2 (ea + 1)"
      by (simp add: power_int_add)
    also have "\<dots> \<le> 2 ^ 52 * power_int 2 eb"
      using lt by (intro mult_left_mono power_int_increasing) simp_all
    also have "\<dots> \<le> fl b"
    proof -
      have "(of_int (2 ^ 52) :: rat) \<le> of_int (round_half_even (b / power_int 2 eb))"
        using fb(4) [OF eb] by (simp only: of_int_le_iff)
      then have "of_int (2 ^ 52) * power_int 2 eb \<le> fl b"
        unfolding fb(1) by (intro mult_right_mono) simp_all
      then show ?thesis by simp
    qed
    finally show ?thesis .
  qed
qed

lemma fl_mono:
  assumes "a \<le> b"
  shows "fl a \<le> fl b"
proof -
  consider "0 < a" | "a \<le> 0" "0 \<le> b" | "b < 0" by linarith
  then show ?thesis
  proof cases
    case 1
    then show ?thesis using assms by (rule fl_mono_pos)
  next
    case 2
    then have "0 \<le> fl (- a)" "0 \<le> fl b" by (simp_all add: fl_nonneg)
    then show ?thesis by (simp add: fl_neg)
  next
    case 3
    then have "fl (- b) \<le> fl (- a)" using assms by (intro fl_mono_pos) simp_all
    then show ?thesis by (simp add: fl_neg)
  qed
qed

subsection \<open>Paths\<close>

text \<open>
  The path functions depend on the environment through the platform alone. A path joined
  from a directory and a relative path whose last segment is a plain name ends with that
  name, so a history path ends with \<open>y\<close> and a temporary path with \<open>e\<close>: the two are
  never the same file.
\<close>

lemma path_platform:
  assumes "platform e1 = platform e2"
  shows "is_sep e1 = is_sep e2" and "path_sep e1 = path_sep e2" and "device_of e1 = device_of e2"
  using assms by (auto simp: is_sep_def path_sep_def device_of_def fun_eq_iff)

lemma path_join_cong:
  assumes "platform e1 = platform e2"
  shows "path_join e1 d r = path_join e2 d r"
  unfolding path_join_def path_normalize_def path_platform [OF assms] ..

lemma getChromeHistoryPath_cong_gen:
  "platform e1 = platform e2 \<Longrightarrow> homedir e1 = homedir e2 \<Longrightarrow>
   getChromeHistoryPath e1 = getChromeHistoryPath e2"
  using path_join_cong [of e1 e2 "homedir e2"]
  by (simp add: getChromeHistoryPath_def Let_def)

lemma tempPathOf_cong_gen:
  "platform e1 = platform e2 \<Longrightarrow> tmpdir e1 = tmpdir e2 \<Longrightarrow> dateNow e1 = dateNow e2 \<Longrightarrow>
   tempPathOf e1 = tempPathOf e2"
  using path_join_cong [of e1 e2 "tmpdir e2"]
  by (simp add: tempPathOf_def)






lemma sep_not_letter: "is_sep e c \<Longrightarrow> \<not> is_letter c"
  by (auto simp: is_sep_def is_letter_def split: if_splits)







declare digits.simps [simp del]






subsection \<open>Evaluation lemmas\<close>

lemma getChromeHistoryPath_execSync:
  "getChromeHistoryPath (e\<lparr>execSync := f\<rparr>) = getChromeHistoryPath e"
  by (rule getChromeHistoryPath_cong_gen) simp_all

lemma isWSL_wsl_env: "isWSL wsl_env"
  by (simp add: isWSL_def wsl_env_def linux_env_def str_includes_def toLowerCase_def
      lower_char_def sublist_Cons_right)

lemma getWindowsUsername_wsl_env: "getWindowsUsername wsl_env = Inr ''alice''"
  by (simp add: getWindowsUsername_def wsl_env_def linux_env_def trim_def white_space_def)

lemma linux_path: "getChromeHistoryPath linux_env = Inr linux_history_path"
  by (simp add: getChromeHistoryPath_def linux_env_def path_join_def path_sep_def
      path_normalize_def device_of_def is_sep_def split_on_def
      linux_history_def linux_history_path_def)

lemma linux_temp: "tempPathOf linux_env = linux_temp_path"
  by (simp add: tempPathOf_def linux_env_def path_join_def path_sep_def digit_char_def
      path_normalize_def device_of_def is_sep_def split_on_def digits.simps
      linux_temp_path_def)

lemma copyHistoryFile_ok:
  "fs src = Some f \<Longrightarrow> copyOutcome e = CopyOk \<Longrightarrow>
   copyHistoryFile e fs src = (Inr (tempPathOf e), fs(tempPathOf e \<mapsto> f))"
  by (simp add: copyHistoryFile_def copyFileSync_def Let_def)

lemma copyHistoryFile_Inr:
  assumes "copyHistoryFile e fs src = (Inr tmp, fs1)"
  shows "tmp = tempPathOf e \<and> copyOutcome e = CopyOk
         \<and> (\<exists>f. fs src = Some f \<and> fs1 = fs(tmp \<mapsto> f))"
  using assms
  by (auto simp: copyHistoryFile_def copyFileSync_def Let_def
      split: option.splits copy_outcome.splits)

lemma using_exit_ok: "using_exit body (Inr ()) = body"
  by (simp add: using_exit_def split: sum.splits)

lemma using_exit_failed:
  "using_exit body (Inl d)
     = (case body of Inr r \<Rightarrow> Inl d | Inl err \<Rightarrow> Inl (SuppressedError d err))"
  by (simp add: using_exit_def split: sum.splits)

lemma handler_copy_ok:
  assumes "getChromeHistoryPath e = Inr src" and "fs src = Some f" and "copyOutcome e = CopyOk"
  shows "handler e fs limit =
    (if unlinkFails e (tempPathOf e)
     then (using_exit (queryAndFormat e (fs(tempPathOf e \<mapsto> f)) (tempPathOf e) limit)
             (Inl UnlinkFailed), fs(tempPathOf e \<mapsto> f))
     else (queryAndFormat e (fs(tempPathOf e \<mapsto> f)) (tempPathOf e) limit,
           (fs(tempPathOf e \<mapsto> f))(tempPathOf e := None)))"
  using assms
  by (simp add: handler_def existsSync_def copyHistoryFile_ok dispose_def unlinkSync_def
      using_exit_ok)

lemma handler_copy_fails:
  assumes "getChromeHistoryPath e = Inr src" and "fs src = Some f" and "copyOutcome e \<noteq> CopyOk"
  shows "handler e fs limit =
    (Inl CopyFailed,
     if copyOutcome e = CopyFailsAfterOpen then fs(tempPathOf e := None) else fs)"
  using assms
  by (cases "copyOutcome e")
     (simp_all add: handler_def existsSync_def copyHistoryFile_def copyFileSync_def Let_def)

lemma queryRows_HistoryDb:
  "fs p = Some (HistoryDb urls) \<Longrightarrow>
   queryRows e fs p limit
     = select_urls urls (chromeTimeStart (of_int (startOfToday e))) (limit_or_10 limit)"
  by (simp add: queryRows_def openSqlite_def prepare_all_def)

lemma queryRows_Inr:
  assumes "queryRows e fs p limit = Inr rows"
  shows "\<exists>urls. fs p = Some (HistoryDb urls)
           \<and> select_urls urls (chromeTimeStart (of_int (startOfToday e))) (limit_or_10 limit)
               = Inr rows"
  using assms
  by (auto simp: queryRows_def openSqlite_def prepare_all_def
      split: option.splits contents.splits sum.splits)

lemma chromeTimeStart_linux_env:
  "chromeTimeStart (of_int (startOfToday linux_env)) = 13438137600000000"
  using chromeTimeStart_exact [of 1793664000000] by (simp add: linux_env_def)

lemma select_urls_int:
  "\<bar>N\<bar> < 2 ^ 63 \<Longrightarrow>
   select_urls urls bound (of_int N)
     = Inr (map to_js_row
              (sql_limit N (order_desc (filter (\<lambda>r. bound < of_int (last_visit_time r)) urls))))"
proof -
  assume "\<bar>N\<bar> < 2 ^ 63"
  then have "(of_int \<bar>N\<bar> :: rat) < of_int (2 ^ 63)" by (simp only: of_int_less_iff)
  then have "\<not> (2 ^ 63 \<le> \<bar>of_int N :: rat\<bar>)" by simp
  then show ?thesis by (simp add: select_urls_def)
qed

lemma select_three_today:
  "select_urls three_today 13438137600000000 10 = Inr (map to_js_row three_sorted)"
  using select_urls_int [of 10 three_today 13438137600000000]
  by (simp add: three_today_def three_sorted_def sql_limit_def order_desc_def visit_def)

lemma select_three_limit_3:
  "select_urls three_today 13438137600000000 3 = Inr (map to_js_row three_sorted)"
  using select_urls_int [of 3 three_today 13438137600000000]
  by (simp add: three_today_def three_sorted_def sql_limit_def order_desc_def visit_def)

lemma select_eleven_unbounded:
  "select_urls eleven_today 13438137600000000 (- 1) = Inr (map to_js_row (rev eleven_today))"
  using select_urls_int [of "- 1" eleven_today 13438137600000000]
  by (simp add: eleven_today_def sql_limit_def order_desc_def visit_def)

lemma select_eleven_default:
  "select_urls eleven_today 13438137600000000 10
     = Inr (map to_js_row (take 10 (rev eleven_today)))"
  using select_urls_int [of 10 eleven_today 13438137600000000]
  by (simp add: eleven_today_def sql_limit_def order_desc_def visit_def)

lemma select_three_limit_2:
  "select_urls three_today 13438137600000000 2 = Inr (map to_js_row (take 2 three_sorted))"
  using select_urls_int [of 2 three_today 13438137600000000]
  by (simp add: three_today_def three_sorted_def sql_limit_def order_desc_def visit_def)

lemma select_fractional:
  "select_urls eleven_today 13438137600000000 (5 / 2) = Inl QueryFailed"
proof -
  have "\<lfloor>5 / 2 :: rat\<rfloor> = 2" by (rule floor_unique) simp_all
  then show ?thesis by (simp add: select_urls_def)
qed

lemma tempPathOf_cong:
  "tempPathOf (e\<lparr>unlinkFails := u\<rparr>) = tempPathOf e"
  "tempPathOf (e\<lparr>copyOutcome := c\<rparr>) = tempPathOf e"
  by (rule tempPathOf_cong_gen; simp)+

lemma getChromeHistoryPath_cong:
  "getChromeHistoryPath (e\<lparr>unlinkFails := u\<rparr>) = getChromeHistoryPath e"
  "getChromeHistoryPath (e\<lparr>copyOutcome := c\<rparr>) = getChromeHistoryPath e"
  "getChromeHistoryPath (e\<lparr>dateNow := n\<rparr>) = getChromeHistoryPath e"
  by (rule getChromeHistoryPath_cong_gen; simp)+

lemma example_envs:
  "startOfToday stuck_env = startOfToday linux_env"
  "tempPathOf stuck_env = linux_temp_path"
  "tempPathOf broken_copy_env = linux_temp_path"
  "tempPathOf clean_fail_env = linux_temp_path"
  "getChromeHistoryPath stuck_env = Inr linux_history_path"
  "getChromeHistoryPath broken_copy_env = Inr linux_history_path"
  "getChromeHistoryPath clean_fail_env = Inr linux_history_path"
  "copyOutcome linux_env = CopyOk"
  "copyOutcome stuck_env = CopyOk"
  "copyOutcome broken_copy_env = CopyFailsAfterOpen"
  "copyOutcome clean_fail_env = CopyFailsBeforeWrite"
  "unlinkFails stuck_env p"
  "\<not> unlinkFails linux_env p"
  using linux_temp linux_path
  by (simp_all add: stuck_env_def broken_copy_env_def clean_fail_env_def
      tempPathOf_cong getChromeHistoryPath_cong)
     (simp_all add: linux_env_def)

lemma example_files:
  "example_fs linux_history_path = Some (HistoryDb three_today)"
  "example_fs linux_temp_path = None"
  "snapshot_fs linux_temp_path = Some (HistoryDb three_today)"
  "busy_snapshot_fs linux_temp_path = Some (HistoryDb eleven_today)"
  by (simp_all add: example_fs_def snapshot_fs_def busy_snapshot_fs_def linux_temp_path_def
      linux_history_path_def)


lemma queryRows_snapshot:
  "startOfToday e = startOfToday linux_env \<Longrightarrow>
   queryRows e snapshot_fs linux_temp_path None = Inr (map to_js_row three_sorted)"
  using chromeTimeStart_linux_env select_three_today
  by (simp add: queryRows_HistoryDb [of snapshot_fs linux_temp_path three_today] example_files
      limit_or_10_def)

lemma queryAndFormat_snapshot:
  "startOfToday e = startOfToday linux_env \<Longrightarrow>
   queryAndFormat e snapshot_fs linux_temp_path None
     = Inr (respond (formattedHistory e (map to_js_row three_sorted)))"
  by (simp add: queryAndFormat_def queryRows_snapshot)


lemma handler_stuck_env:
  "handler stuck_env example_fs None = (Inl UnlinkFailed, snapshot_fs)"
  using handler_copy_ok [of stuck_env linux_history_path example_fs "HistoryDb three_today" None]
    example_files(1)
  by (simp add: example_envs snapshot_fs_def [symmetric] queryAndFormat_snapshot using_exit_def)

lemma handler_broken_copy_env:
  "handler broken_copy_env example_fs None = (Inl CopyFailed, example_fs)"
  using handler_copy_fails
    [of broken_copy_env linux_history_path example_fs "HistoryDb three_today" None]
    example_files(1,2)
  by (simp add: example_envs fun_upd_idem)

lemma handler_clean_fail_env:
  "handler clean_fail_env example_fs None = (Inl CopyFailed, example_fs)"
  using handler_copy_fails
    [of clean_fail_env linux_history_path example_fs "HistoryDb three_today" None]
    example_files(1)
  by (simp add: example_envs)

lemma copy_linux_env:
  "copyHistoryFile linux_env example_fs linux_history_path = (Inr linux_temp_path, snapshot_fs)"
  using copyHistoryFile_ok [of example_fs linux_history_path "HistoryDb three_today" linux_env]
  by (simp add: example_files example_envs linux_temp snapshot_fs_def)

subsection \<open>Platform locator\<close>

text \<open>
  Claim C2. On a Linux guest of a Windows host the path resolution should ask the host
  for the user's account name and return a path into the host's file system, and fail
  with \<open>IdentityResolutionFailed\<close> when the lookup fails. The code defines \<open>isWSL\<close> and
  \<open>getWindowsUsername\<close> for this purpose but \<open>getChromeHistoryPath\<close> never calls them:
  in the guest \<open>wsl_env\<close>, where \<open>isWSL\<close> holds and the host user is \<open>alice\<close>, it returns
  the path under the guest's own home directory, and it returns the same path when the
  host lookup would fail.
\<close>

theorem wsl_path_is_guest_home:
  "isWSL wsl_env
   \<and> getWindowsUsername wsl_env = Inr ''alice''
   \<and> getChromeHistoryPath wsl_env = Inr ''/home/guest/.config/google-chrome/Default/History''
   \<and> getWindowsUsername (wsl_env\<lparr>execSync := (\<lambda>_. None)\<rparr>)
       = Inl (IdentityResolutionFailed username_failed_message)
   \<and> getChromeHistoryPath (wsl_env\<lparr>execSync := (\<lambda>_. None)\<rparr>)
       = Inr ''/home/guest/.config/google-chrome/Default/History''"
proof -
  have p: "getChromeHistoryPath wsl_env
           = Inr ''/home/guest/.config/google-chrome/Default/History''"
    by (simp add: getChromeHistoryPath_def wsl_env_def linux_env_def path_join_def path_sep_def
        path_normalize_def device_of_def is_sep_def split_on_def linux_history_def)
  have f: "getWindowsUsername (wsl_env\<lparr>execSync := (\<lambda>_. None)\<rparr>)
           = Inl (IdentityResolutionFailed username_failed_message)"
    by (simp add: getWindowsUsername_def)
  show ?thesis
    using isWSL_wsl_env getWindowsUsername_wsl_env p f
    by (simp add: getChromeHistoryPath_execSync)
qed

subsection \<open>Missing source store\<close>

text \<open>
  Claim C9. If the resolved history path does not exist, the handler fails with
  \<open>SourceNotFound\<close> before any copy: the message ends with the source path, and the file
  system is returned unchanged, so no temporary file has been created.
\<close>

theorem source_missing:
  assumes "getChromeHistoryPath e = Inr p" and "\<not> existsSync fs p"
  shows "handler e fs limit = (Inl (SourceNotFound (not_found_prefix @ p)), fs)
         \<and> sublist p (not_found_prefix @ p)"
  using assms by (simp add: handler_def)

theorem source_missing_witness:
  "getChromeHistoryPath linux_env = Inr linux_history_path
   \<and> \<not> existsSync Map.empty linux_history_path
   \<and> handler linux_env Map.empty None
       = (Inl (SourceNotFound (not_found_prefix @ linux_history_path)), Map.empty)"
  using source_missing [of linux_env linux_history_path Map.empty None] linux_path
  by (simp add: existsSync_def)

subsection \<open>Disposal of the snapshot handle\<close>

text \<open>
  Claim C10. The handle's dispose operation unlinks the temporary file only after
  checking that it exists. Disposing a handle whose file is already gone changes nothing
  and raises no error (\<open>unlinkSync\<close> alone would throw there); when the file exists,
  disposing is the unlink.
\<close>

theorem dispose_checks_existence:
  "(fs p = None \<longrightarrow> dispose e fs p = (Inr (), fs) \<and> unlinkSync e fs p = (Inl UnlinkFailed, fs))
   \<and> (fs p \<noteq> None \<longrightarrow> dispose e fs p = unlinkSync e fs p)"
  by (simp add: dispose_def existsSync_def unlinkSync_def)

theorem dispose_checks_existence_witness:
  "example_fs linux_temp_path = None
   \<and> dispose linux_env example_fs linux_temp_path = (Inr (), example_fs)
   \<and> unlinkSync linux_env example_fs linux_temp_path = (Inl UnlinkFailed, example_fs)
   \<and> example_fs linux_history_path \<noteq> None
   \<and> dispose linux_env example_fs linux_history_path
       = unlinkSync linux_env example_fs linux_history_path"
  using dispose_checks_existence [of example_fs linux_temp_path linux_env]
    dispose_checks_existence [of example_fs linux_history_path linux_env]
  by (simp add: example_fs_def linux_temp_path_def linux_history_path_def)

subsection \<open>Cleanup of the snapshot\<close>

text \<open>
  Claim C3, as the code behaves. Whenever the snapshot copy was created, the scope exits
  with the disposal of the handle, whether the query succeeded or failed. If the unlink
  succeeds, the temporary file is gone and the handler's result is the result of the
  query. A failure of the unlink is not caught: it replaces a successful result, and it
  wraps the error of a failed query in a \<open>SuppressedError\<close>; the file then remains.
\<close>

theorem cleanup_on_scope_exit:
  assumes "getChromeHistoryPath e = Inr src" and "copyHistoryFile e fs src = (Inr tmp, fs1)"
  shows "(\<not> unlinkFails e tmp \<longrightarrow>
            handler e fs limit = (queryAndFormat e fs1 tmp limit, fs1(tmp := None)))
       \<and> (unlinkFails e tmp \<longrightarrow>
            handler e fs limit =
              (case queryAndFormat e fs1 tmp limit of
                 Inr r \<Rightarrow> Inl UnlinkFailed
               | Inl err \<Rightarrow> Inl (SuppressedError UnlinkFailed err), fs1))"
proof -
  from copyHistoryFile_Inr [OF assms(2)] obtain f
    where tmp: "tmp = tempPathOf e" and ok: "copyOutcome e = CopyOk"
      and src: "fs src = Some f" and fs1: "fs1 = fs(tmp \<mapsto> f)"
    by blast
  show ?thesis
    using handler_copy_ok [of e src fs f limit] assms(1) src ok
    by (simp add: tmp fs1 using_exit_failed)
qed

theorem cleanup_on_scope_exit_witness:
  "getChromeHistoryPath linux_env = Inr linux_history_path
   \<and> copyHistoryFile linux_env example_fs linux_history_path = (Inr linux_temp_path, snapshot_fs)
   \<and> \<not> unlinkFails linux_env linux_temp_path
   \<and> handler linux_env example_fs None
       = (queryAndFormat linux_env snapshot_fs linux_temp_path None,
          snapshot_fs(linux_temp_path := None))
   \<and> (snapshot_fs(linux_temp_path := None)) linux_temp_path = None
   \<and> getChromeHistoryPath stuck_env = Inr linux_history_path
   \<and> copyHistoryFile stuck_env example_fs linux_history_path = (Inr linux_temp_path, snapshot_fs)
   \<and> unlinkFails stuck_env linux_temp_path
   \<and> handler stuck_env example_fs None = (Inl UnlinkFailed, snapshot_fs)"
proof -
  have c1: "copyHistoryFile linux_env example_fs linux_history_path
            = (Inr linux_temp_path, snapshot_fs)"
    using copyHistoryFile_ok [of example_fs linux_history_path "HistoryDb three_today" linux_env]
    by (simp add: example_files example_envs linux_temp snapshot_fs_def)
  have c2: "copyHistoryFile stuck_env example_fs linux_history_path
            = (Inr linux_temp_path, snapshot_fs)"
    using copyHistoryFile_ok [of example_fs linux_history_path "HistoryDb three_today" stuck_env]
    by (simp add: example_files example_envs snapshot_fs_def)
  show ?thesis
    using cleanup_on_scope_exit [OF linux_path c1, of None]
      cleanup_on_scope_exit [OF example_envs(5) c2, of None]
    by (simp add: c1 c2 linux_path example_envs queryAndFormat_snapshot)
qed

text \<open>
  In \<open>stuck_env\<close> the query succeeds on the snapshot, yet the handler fails with the
  error of the unlink and the temporary file is still there.
\<close>

theorem unlink_failure_escalates:
  "handler stuck_env example_fs None = (Inl UnlinkFailed, snapshot_fs)
   \<and> queryAndFormat stuck_env snapshot_fs linux_temp_path None
       = Inr (respond (formattedHistory stuck_env (map to_js_row three_sorted)))
   \<and> existsSync snapshot_fs linux_temp_path"
  using handler_stuck_env queryAndFormat_snapshot [of stuck_env]
  by (simp add: example_envs example_files existsSync_def)

subsection \<open>The tool boundary\<close>

text \<open>
  Claim C7. Every failure of the history subsystem should be caught at the tool boundary
  and returned as a response whose text carries the error message. The handler has no
  \<open>try\<close> block: an unsupported platform, a missing history file and a failed copy all
  leave it as thrown errors (\<open>Inl\<close>), not as responses.
\<close>

theorem handler_throws:
  "handler freebsd_env example_fs None
     = (Inl (UnsupportedPlatform unsupported_os_message), example_fs)
   \<and> handler linux_env Map.empty None
       = (Inl (SourceNotFound (not_found_prefix @ linux_history_path)), Map.empty)
   \<and> handler clean_fail_env example_fs None = (Inl CopyFailed, example_fs)"
proof -
  have "getChromeHistoryPath freebsd_env = Inl (UnsupportedPlatform unsupported_os_message)"
    by (simp add: getChromeHistoryPath_def freebsd_env_def linux_env_def)
  then have a: "handler freebsd_env example_fs None
     = (Inl (UnsupportedPlatform unsupported_os_message), example_fs)"
    by (simp add: handler_def)
  have b: "handler linux_env Map.empty None
       = (Inl (SourceNotFound (not_found_prefix @ linux_history_path)), Map.empty)"
    using linux_path by (simp add: handler_def existsSync_def)
  show ?thesis using a b handler_clean_fail_env by simp
qed

subsection \<open>Failure of the copy\<close>




subsection \<open>The limit of the query\<close>

lemma set_order_desc: "set (order_desc rs) = set rs"
  by (simp add: order_desc_def)

lemma sorted_order_desc:
  "sorted_wrt (\<lambda>a b. last_visit_time b \<le> last_visit_time a) (order_desc rs)"
proof -
  have "sorted (map (\<lambda>r. - last_visit_time r) (sort_key (\<lambda>r. - last_visit_time r) rs))"
    by (rule sorted_sort_key)
  then have "sorted_wrt (\<lambda>a b. - last_visit_time a \<le> - last_visit_time b)
               (sort_key (\<lambda>r. - last_visit_time r) rs)"
    by (simp only: sorted_map)
  then show ?thesis
    by (simp add: order_desc_def)
qed

lemma sql_limit_props:
  "set (sql_limit N xs) \<subseteq> set xs"
  "0 \<le> N \<Longrightarrow> length (sql_limit N xs) \<le> nat N"
  "sorted_wrt P xs \<Longrightarrow> sorted_wrt P (sql_limit N xs)"
  by (auto simp: sql_limit_def dest: in_set_takeD intro: sorted_wrt_take)

lemma select_urls_props:
  assumes "select_urls urls bound cnt = Inr rows"
  shows "\<exists>stored. rows = map to_js_row stored
           \<and> (\<forall>s \<in> set stored. s \<in> set urls \<and> bound < of_int (last_visit_time s))
           \<and> sorted_wrt (\<lambda>a b. last_visit_time b \<le> last_visit_time a) stored
           \<and> (0 \<le> \<lfloor>cnt\<rfloor> \<longrightarrow> length stored \<le> nat \<lfloor>cnt\<rfloor>)"
proof -
  let ?sel = "order_desc (filter (\<lambda>r. bound < of_int (last_visit_time r)) urls)"
  let ?stored = "sql_limit \<lfloor>cnt\<rfloor> ?sel"
  have rows: "rows = map to_js_row ?stored"
    using assms by (simp add: select_urls_def split: if_splits)
  have "set ?stored \<subseteq> set ?sel" by (rule sql_limit_props(1))
  then have "\<forall>s \<in> set ?stored. s \<in> set urls \<and> bound < of_int (last_visit_time s)"
    by (auto simp: set_order_desc)
  moreover have "sorted_wrt (\<lambda>a b. last_visit_time b \<le> last_visit_time a) ?stored"
    by (intro sql_limit_props(3) sorted_order_desc)
  moreover have "0 \<le> \<lfloor>cnt\<rfloor> \<longrightarrow> length ?stored \<le> nat \<lfloor>cnt\<rfloor>"
    using sql_limit_props(2) by blast
  ultimately show ?thesis using rows by blast
qed

lemma select_urls_too_big:
  "2 ^ 63 \<le> N \<Longrightarrow> select_urls urls bound (of_int N) = Inl QueryFailed"
proof -
  assume "2 ^ 63 \<le> N"
  then have "(of_int (2 ^ 63) :: rat) \<le> of_int N" by (simp only: of_int_le_iff)
  then have "(2 ^ 63 :: rat) \<le> \<bar>of_int N\<bar>" by simp
  then show ?thesis by (simp add: select_urls_def)
qed

lemma chromeTimeStart_idem: "fl (chromeTimeStart x) = chromeTimeStart x"
  by (simp add: chromeTimeStart_def js_mul_def fl_idem)

lemma held_at_least_bound:
  assumes "chromeTimeStart x < of_int (last_visit_time s)"
  shows "chromeTimeStart x \<le> last_visit_time (to_js_row s)"
proof -
  have "fl (chromeTimeStart x) \<le> fl (of_int (last_visit_time s))"
    using assms by (intro fl_mono) simp
  then show ?thesis
    by (simp add: chromeTimeStart_idem to_js_row_def to_number_def)
qed

lemma held_descending:
  assumes "sorted_wrt (\<lambda>a b. last_visit_time b \<le> last_visit_time a) (stored :: db_row list)"
    and "Suc i < length stored"
  shows "last_visit_time (map to_js_row stored ! Suc i)
           \<le> last_visit_time (map to_js_row stored ! i)"
proof -
  have "last_visit_time (stored ! Suc i) \<le> last_visit_time (stored ! i)"
    using sorted_wrt_nth_less [OF assms(1), of i "Suc i"] assms(2) by simp
  then have "(of_int (last_visit_time (stored ! Suc i)) :: rat)
             \<le> of_int (last_visit_time (stored ! i))"
    by (simp only: of_int_le_iff)
  then have "fl (of_int (last_visit_time (stored ! Suc i)))
             \<le> fl (of_int (last_visit_time (stored ! i)))"
    by (rule fl_mono)
  then show ?thesis
    using assms(2) by (simp add: to_js_row_def to_number_def)
qed

lemma chromeTimeStart_exact_gen:
  assumes t: "0 \<le> t" and j: "j \<le> 11" and dvd: "2 ^ j dvd t"
    and small: "(t + 11644473600000) * 1000 < 2 ^ (56 + j)"
  shows "chromeTimeStart (of_int t) = of_int ((t + 11644473600000) * 1000)"
proof -
  have "(2::int) ^ j dvd 2 ^ 11"
    using j by (intro le_imp_power_dvd)
  moreover have "(2::int) ^ 11 dvd 11644473600000" by simp
  ultimately have "(2::int) ^ j dvd 11644473600000" by (rule dvd_trans)
  then have "2 ^ j dvd t + 11644473600000" using dvd by (rule dvd_add [rotated])
  then obtain u where u: "t + 11644473600000 = 2 ^ j * u" by (rule dvdE)
  have pj: "(0::int) < 2 ^ j" by simp
  have "2 ^ j * (u * 1000) < (2::int) ^ j * 2 ^ 56"
    using small by (simp add: u power_add mult.commute mult.left_commute)
  then have u1000: "u * 1000 < 2 ^ 56" using pj by (simp only: mult_less_cancel_left_pos)
  have "0 \<le> 2 ^ j * u" using t u by simp
  then have u0: "0 \<le> u" using pj by (simp add: zero_le_mult_iff)
  have usmall: "\<bar>u\<bar> < 2 ^ 53" "\<bar>u * 125\<bar> < 2 ^ 53" using u1000 u0 by simp_all
  have "js_add (of_int t) WEBKIT_EPOCH_OFFSET = fl (of_int (t + 11644473600000))"
    by (simp add: js_add_def WEBKIT_EPOCH_OFFSET_def)
  also have "of_int (t + 11644473600000) = (of_int u :: rat) * power_int 2 (int j)"
    unfolding u by (simp add: power_int_of_nat)
  also have "fl \<dots> = \<dots>"
    using usmall(1) by (intro fl_exact [where m = u and k = "int j"]) simp_all
  finally have s: "js_add (of_int t) WEBKIT_EPOCH_OFFSET = of_int u * power_int 2 (int j)" .
  have p: "(of_int u :: rat) * power_int 2 (int j) * 1000
           = of_int (u * 125) * power_int 2 (int j + 3)"
    by (simp add: power_int_add)
  have "fl (of_int (u * 125) * power_int 2 (int j + 3))
        = (of_int (u * 125) :: rat) * power_int 2 (int j + 3)"
    using usmall(2) by (intro fl_exact [where m = "u * 125" and k = "int j + 3"]) simp_all
  then have "chromeTimeStart (of_int t) = (of_int u :: rat) * power_int 2 (int j) * 1000"
    unfolding chromeTimeStart_def s js_mul_def p .
  also have "\<dots> = of_int (2 ^ j * u * 1000)"
    by (simp add: power_int_of_nat)
  finally show ?thesis unfolding u .
qed

lemma to_number_three_sorted:
  "to_number 13438137600000003 = 13438137600000004"
  "to_number 13438137600000002 = 13438137600000002"
  "to_number 13438137600000001 = 13438137600000000"
proof -
  have e: "fl q = of_int (round_half_even (q / power_int 2 (53 - 52))) * power_int 2 (53 - 52)"
    if "2 ^ 53 \<le> q" "q < 2 ^ 54" for q
    using that by (intro fl_eval) simp_all
  have "round_half_even (13438137600000003 / 2) = 6719068800000002"
    using round_half_even_tie [of "13438137600000003 / 2" 6719068800000001] by simp
  then show "to_number 13438137600000003 = 13438137600000004"
    using e [of 13438137600000003] by (simp add: to_number_def)
  have "round_half_even (13438137600000002 / 2) = 6719068800000001"
    using round_half_even_of_int [of 6719068800000001] by simp
  then show "to_number 13438137600000002 = 13438137600000002"
    using e [of 13438137600000002] by (simp add: to_number_def)
  have "round_half_even (13438137600000001 / 2) = 6719068800000000"
    using round_half_even_tie [of "13438137600000001 / 2" 6719068800000000] by simp
  then show "to_number 13438137600000001 = 13438137600000000"
    using e [of 13438137600000001] by (simp add: to_number_def)
qed

lemma held_three_sorted:
  "map last_visit_time (map to_js_row three_sorted)
     = [13438137600000004, 13438137600000002, 13438137600000000]"
  by (simp add: three_sorted_def visit_def to_js_row_def to_number_three_sorted)

lemma queryRows_snapshot_limit:
  "queryRows linux_env snapshot_fs linux_temp_path (Some cnt)
     = select_urls three_today 13438137600000000 (limit_or_10 (Some cnt))"
  using queryRows_HistoryDb [of snapshot_fs linux_temp_path three_today linux_env "Some cnt"]
  by (simp add: example_files chromeTimeStart_linux_env)

text \<open>
  Claim C5, as the code behaves. For an integer limit \<open>N\<close> with \<open>0 < N < 2\<^sup>6\<^sup>3\<close> the query
  on a history database returns, and for \<open>N \<ge> 2\<^sup>6\<^sup>3\<close> it fails. Whatever it returns has at
  most \<open>N\<close> rows. Every returned row is a stored row whose visit time is strictly greater
  than the bound that the code computes for the start of the local day; the row holds
  that time as a number, which is at least the bound, and the numbers are in descending
  order: every row is at least as recent as the next one. The bound is the raw encoding
  \<open>(startOfToday + 11644473600000) * 1000\<close> of the start of the day whenever that product
  is a binary64 value: for a start of day that is a multiple of \<open>2\<^sup>j\<close> milliseconds
  (\<open>j \<le> 11\<close>), as long as the product is below \<open>2\<^sup>5\<^sup>6\<^sup>+\<^sup>j\<close>.
\<close>

theorem bounded_limit:
  assumes "0 < N"
  shows "(fs p = Some (HistoryDb urls) \<and> N < 2 ^ 63 \<longrightarrow>
            (\<exists>rows. queryRows e fs p (Some (of_int N)) = Inr rows))
       \<and> (fs p = Some (HistoryDb urls) \<and> 2 ^ 63 \<le> N \<longrightarrow>
            queryRows e fs p (Some (of_int N)) = Inl QueryFailed)
       \<and> (\<forall>rows. queryRows e fs p (Some (of_int N)) = Inr rows \<longrightarrow>
             length rows \<le> nat N
             \<and> (\<exists>urls' stored. fs p = Some (HistoryDb urls') \<and> rows = map to_js_row stored
                   \<and> (\<forall>s \<in> set stored. s \<in> set urls'
                         \<and> chromeTimeStart (of_int (startOfToday e))
                               < of_int (last_visit_time s)))
             \<and> (\<forall>r \<in> set rows.
                   chromeTimeStart (of_int (startOfToday e)) \<le> last_visit_time r)
             \<and> (\<forall>i. Suc i < length rows \<longrightarrow>
                   last_visit_time (rows ! Suc i) \<le> last_visit_time (rows ! i)))
       \<and> (0 \<le> startOfToday e \<and> j \<le> 11 \<and> 2 ^ j dvd startOfToday e
            \<and> (startOfToday e + 11644473600000) * 1000 < 2 ^ (56 + j) \<longrightarrow>
            chromeTimeStart (of_int (startOfToday e))
              = of_int ((startOfToday e + 11644473600000) * 1000))"
proof (intro conjI impI allI)
  have lim: "limit_or_10 (Some (of_int N)) = of_int N"
    using assms by (simp add: limit_or_10_def)
  {
    assume "fs p = Some (HistoryDb urls) \<and> N < 2 ^ 63"
    then show "\<exists>rows. queryRows e fs p (Some (of_int N)) = Inr rows"
      using assms by (simp add: queryRows_HistoryDb lim select_urls_int)
  }
  {
    assume "fs p = Some (HistoryDb urls) \<and> 2 ^ 63 \<le> N"
    then show "queryRows e fs p (Some (of_int N)) = Inl QueryFailed"
      by (simp add: queryRows_HistoryDb lim select_urls_too_big)
  }
  {
    assume "0 \<le> startOfToday e \<and> j \<le> 11 \<and> 2 ^ j dvd startOfToday e
            \<and> (startOfToday e + 11644473600000) * 1000 < 2 ^ (56 + j)"
    then show "chromeTimeStart (of_int (startOfToday e))
                 = of_int ((startOfToday e + 11644473600000) * 1000)"
      using chromeTimeStart_exact_gen [of "startOfToday e" j] by blast
  }
  fix rows
  assume "queryRows e fs p (Some (of_int N)) = Inr rows"
  from queryRows_Inr [OF this] obtain urls' where
    db: "fs p = Some (HistoryDb urls')" and
    sel: "select_urls urls' (chromeTimeStart (of_int (startOfToday e))) (of_int N) = Inr rows"
    by (auto simp: lim)
  from select_urls_props [OF sel] obtain stored where
    rows: "rows = map to_js_row stored" and
    above: "\<forall>s \<in> set stored. s \<in> set urls'
              \<and> chromeTimeStart (of_int (startOfToday e)) < of_int (last_visit_time s)" and
    sorted: "sorted_wrt (\<lambda>a b. last_visit_time b \<le> last_visit_time a) stored" and
    len: "length stored \<le> nat N"
    using assms by auto
  show "length rows \<le> nat N" using len rows by simp
  show "\<exists>urls' stored. fs p = Some (HistoryDb urls') \<and> rows = map to_js_row stored
          \<and> (\<forall>s \<in> set stored. s \<in> set urls'
                \<and> chromeTimeStart (of_int (startOfToday e)) < of_int (last_visit_time s))"
    using db rows above by blast
  show "\<forall>r \<in> set rows. chromeTimeStart (of_int (startOfToday e)) \<le> last_visit_time r"
    using above by (auto simp: rows intro: held_at_least_bound)
  fix i
  assume "Suc i < length rows"
  then show "last_visit_time (rows ! Suc i) \<le> last_visit_time (rows ! i)"
    unfolding rows using held_descending [OF sorted, of i] by simp
qed

theorem bounded_limit_witness:
  "(0::int) < 2
   \<and> snapshot_fs linux_temp_path = Some (HistoryDb three_today) \<and> (2::int) < 2 ^ 63
   \<and> queryRows linux_env snapshot_fs linux_temp_path (Some (of_int 2))
       = Inr (map to_js_row (take 2 three_sorted))
   \<and> length (map to_js_row (take 2 three_sorted)) \<le> nat 2
   \<and> chromeTimeStart (of_int (startOfToday linux_env))
       \<le> last_visit_time (map to_js_row (take 2 three_sorted) ! 0)
   \<and> chromeTimeStart (of_int (startOfToday linux_env))
       \<le> last_visit_time (map to_js_row (take 2 three_sorted) ! 1)
   \<and> last_visit_time (map to_js_row (take 2 three_sorted) ! 1)
       \<le> last_visit_time (map to_js_row (take 2 three_sorted) ! 0)
   \<and> 0 \<le> startOfToday linux_env \<and> (0::nat) \<le> 11 \<and> 2 ^ 0 dvd startOfToday linux_env
   \<and> (startOfToday linux_env + 11644473600000) * 1000 < 2 ^ (56 + 0)
   \<and> chromeTimeStart (of_int (startOfToday linux_env))
       = of_int ((startOfToday linux_env + 11644473600000) * 1000)"
proof -
  have q: "queryRows linux_env snapshot_fs linux_temp_path (Some (of_int 2))
           = Inr (map to_js_row (take 2 three_sorted))"
    by (simp add: queryRows_snapshot_limit limit_or_10_def select_three_limit_2)
  have s: "startOfToday linux_env = 1793664000000" by (simp add: linux_env_def)
  have h: "last_visit_time (map to_js_row (take 2 three_sorted) ! 0) = 13438137600000004"
    "last_visit_time (map to_js_row (take 2 three_sorted) ! 1) = 13438137600000002"
    "last_visit_time (map to_js_row (take 2 three_sorted) ! Suc 0) = 13438137600000002"
    by (simp_all add: three_sorted_def visit_def to_js_row_def to_number_three_sorted)
  show ?thesis
    using bounded_limit [of 2 snapshot_fs linux_temp_path three_today linux_env 0] q
    by (simp add: example_files h s)
qed

text \<open>
  The returned rows do not all hold a time strictly greater than the bound. In the
  example the bound is 13438137600000000 and the table has a visit at 13438137600000001;
  the query selects it, and the row that reaches the code holds 13438137600000000, the
  nearest binary64 value, which is the bound itself. A limit of \<open>2\<^sup>6\<^sup>3\<close> makes the query
  fail.
\<close>

theorem held_time_equals_bound:
  "queryRows linux_env snapshot_fs linux_temp_path (Some 3) = Inr (map to_js_row three_sorted)
   \<and> last_visit_time (three_sorted ! 2) = 13438137600000001
   \<and> last_visit_time (map to_js_row three_sorted ! 2) = 13438137600000000
   \<and> chromeTimeStart (of_int (startOfToday linux_env)) = 13438137600000000
   \<and> \<not> chromeTimeStart (of_int (startOfToday linux_env))
         < last_visit_time (map to_js_row three_sorted ! 2)
   \<and> queryRows linux_env snapshot_fs linux_temp_path (Some (2 ^ 63)) = Inl QueryFailed"
proof -
  have q: "queryRows linux_env snapshot_fs linux_temp_path (Some 3)
           = Inr (map to_js_row three_sorted)"
    by (simp add: queryRows_snapshot_limit limit_or_10_def select_three_limit_3)
  have h: "last_visit_time (map to_js_row three_sorted ! 2) = 13438137600000000"
    by (simp add: three_sorted_def visit_def to_js_row_def to_number_three_sorted)
  have s: "last_visit_time (three_sorted ! 2) = 13438137600000001"
    by (simp add: three_sorted_def visit_def)
  have "select_urls three_today 13438137600000000 (of_int (2 ^ 63)) = Inl QueryFailed"
    by (rule select_urls_too_big) simp
  then have b: "queryRows linux_env snapshot_fs linux_temp_path (Some (2 ^ 63)) = Inl QueryFailed"
    by (simp add: queryRows_snapshot_limit limit_or_10_def)
  show ?thesis
    using q h s b chromeTimeStart_linux_env by simp
qed

text \<open>
  Claim C4, as the code behaves. When the limit is absent or zero, the query runs with
  the limit 10 and returns at most 10 rows. Any other number is passed to the query as
  it is.
\<close>

theorem default_limit:
  "(limit = None \<or> limit = Some 0 \<longrightarrow>
      limit_or_10 limit = 10
      \<and> (fs p = Some (HistoryDb urls) \<longrightarrow> (\<exists>rows. queryRows e fs p limit = Inr rows))
      \<and> (\<forall>rows. queryRows e fs p limit = Inr rows \<longrightarrow> length rows \<le> 10))
   \<and> (n \<noteq> 0 \<longrightarrow> limit_or_10 (Some n) = n)"
proof (intro conjI impI allI)
  show "n \<noteq> 0 \<Longrightarrow> limit_or_10 (Some n) = n"
    by (simp add: limit_or_10_def)
next
  assume l: "limit = None \<or> limit = Some 0"
  then show lim: "limit_or_10 limit = 10"
    by (auto simp: limit_or_10_def)
  {
    assume "fs p = Some (HistoryDb urls)"
    then show "\<exists>rows. queryRows e fs p limit = Inr rows"
      using select_urls_int [of 10 urls "chromeTimeStart (of_int (startOfToday e))"]
      by (simp add: queryRows_HistoryDb lim)
  }
  fix rows
  assume "queryRows e fs p limit = Inr rows"
  from queryRows_Inr [OF this] obtain urls' where
    "select_urls urls' (chromeTimeStart (of_int (startOfToday e))) 10 = Inr rows"
    by (auto simp: lim)
  from select_urls_props [OF this] show "length rows \<le> 10" by auto
qed

theorem default_limit_witness:
  "((None :: number option) = None \<or> (None :: number option) = Some 0)
   \<and> limit_or_10 None = 10
   \<and> busy_snapshot_fs linux_temp_path = Some (HistoryDb eleven_today)
   \<and> queryRows linux_env busy_snapshot_fs linux_temp_path None
       = Inr (map to_js_row (take 10 (rev eleven_today)))
   \<and> length (map to_js_row (take 10 (rev eleven_today))) \<le> 10
   \<and> (3::rat) \<noteq> 0 \<and> limit_or_10 (Some 3) = 3"
proof -
  have q: "queryRows linux_env busy_snapshot_fs linux_temp_path None
           = Inr (map to_js_row (take 10 (rev eleven_today)))"
    using queryRows_HistoryDb [of busy_snapshot_fs linux_temp_path eleven_today linux_env None]
    by (simp add: example_files chromeTimeStart_linux_env limit_or_10_def select_eleven_default)
  show ?thesis
    using default_limit [of None busy_snapshot_fs linux_temp_path eleven_today linux_env 3] q
    by (simp add: example_files)
qed

text \<open>
  A limit that is not a positive integer is not replaced by 10 unless it is zero: with
  \<open>-1\<close> the query runs with \<open>LIMIT -1\<close> and returns all eleven visits of today, and with
  \<open>5 / 2\<close> it runs with that value and fails.
\<close>

theorem negative_limit_unbounded:
  "limit_or_10 (Some (- 1)) = - 1
   \<and> queryRows linux_env busy_snapshot_fs linux_temp_path (Some (- 1))
       = Inr (map to_js_row (rev eleven_today))
   \<and> length (map to_js_row (rev eleven_today)) = 11
   \<and> limit_or_10 (Some (5 / 2)) = 5 / 2
   \<and> queryRows linux_env busy_snapshot_fs linux_temp_path (Some (5 / 2)) = Inl QueryFailed"
proof -
  have l: "limit_or_10 (Some (- 1)) = - 1" "limit_or_10 (Some (5 / 2)) = 5 / 2"
    by (simp_all add: limit_or_10_def)
  have q: "queryRows linux_env busy_snapshot_fs linux_temp_path lim
        = select_urls eleven_today 13438137600000000 (limit_or_10 lim)" for lim
    using queryRows_HistoryDb [of busy_snapshot_fs linux_temp_path eleven_today linux_env lim]
    by (simp add: example_files chromeTimeStart_linux_env)
  show ?thesis
    by (simp add: q l select_eleven_unbounded select_fractional) (simp add: eleven_today_def)
qed

subsection \<open>Requests of one process\<close>








end
